theory Spec2Isabelle
  imports Main
begin

section \<open>Values of the embedding\<close>

text \<open>
  The agent handles loosely typed data (\<^verbatim>\<open>action: any\<close>, \<^verbatim>\<open>response: any\<close>), so the
  embedding works on JavaScript values as they come out of a JSON payload.  Numbers are
  integers (coordinates, durations); strings are over the characters below 256, one
  \<open>char\<close> each; objects are the list of their own properties, each name once.
\<close>

datatype json =
    JUndefined
  | JNull
  | JBool bool
  | JNum int
  | JStr string
  | JArr "json list"
  | JObj "(string \<times> json) list"

text \<open>What the source can throw: a \<^verbatim>\<open>TypeError\<close> of the language, a rejected Playwright
  call, a rejected \<^verbatim>\<open>openai.responses.create\<close>.\<close>

datatype pw_call =
    ChromiumLaunch bool bool "(string \<times> string) list" "string list"
  | BrowserNewPage
  | SetViewportSize int int
  | MouseClick json json json
  | MouseDblclick json json json
  | MouseMove json json
  | EvaluateScrollBy json json
  | KeyboardType json
  | KeyboardPress json
  | WaitForTimeout json
  | Goto json json
  | PageScreenshot bool
  | BrowserClose

datatype error = TypeError | PlaywrightError pw_call | TransportError

text \<open>\<^verbatim>\<open>v == null\<close>: the values on which a property read throws and on which \<^verbatim>\<open>??\<close> and
  \<^verbatim>\<open>?.\<close> take their other branch.\<close>

fun nullish :: "json \<Rightarrow> bool" where
  "nullish JUndefined = True"
| "nullish JNull = True"
| "nullish _ = False"

text \<open>\<^verbatim>\<open>v.k\<close> for a value that is not nullish and one of the property names the source
  reads (none of them is inherited by strings, arrays or plain objects).\<close>

fun field :: "string \<Rightarrow> json \<Rightarrow> json" where
  "field k (JObj kvs) = (case map_of kvs k of None \<Rightarrow> JUndefined | Some v \<Rightarrow> v)"
| "field k _ = JUndefined"

text \<open>\<^verbatim>\<open>a ?? b\<close>.\<close>

definition coalesce :: "json \<Rightarrow> json \<Rightarrow> json" where
  "coalesce a b = (if nullish a then b else a)"

text \<open>A destructuring default \<^verbatim>\<open>{ k = d }\<close>: only \<^verbatim>\<open>undefined\<close> takes the default.\<close>

definition default_to :: "json \<Rightarrow> json \<Rightarrow> json" where
  "default_to a d = (if a = JUndefined then d else a)"

fun truthy :: "json \<Rightarrow> bool" where
  "truthy JUndefined = False"
| "truthy JNull = False"
| "truthy (JBool b) = b"
| "truthy (JNum n) = (n \<noteq> 0)"
| "truthy (JStr s) = (s \<noteq> [])"
| "truthy (JArr _) = True"
| "truthy (JObj _) = True"

fun typeof_js :: "json \<Rightarrow> string" where
  "typeof_js JUndefined = ''undefined''"
| "typeof_js JNull = ''object''"
| "typeof_js (JBool _) = ''boolean''"
| "typeof_js (JNum _) = ''number''"
| "typeof_js (JStr _) = ''string''"
| "typeof_js (JArr _) = ''object''"
| "typeof_js (JObj _) = ''object''"

section \<open>The world the agent acts on\<close>

text \<open>
  Every call of the Playwright API is recorded, oldest first, with its arguments; so is
  every payload handed to \<^verbatim>\<open>openai.responses.create\<close> and every line written with
  \<^verbatim>\<open>console.warn\<close> or \<^verbatim>\<open>console.error\<close>.  The informational \<^verbatim>\<open>log\<close> lines and the step
  counter that only feeds them are left out.
\<close>

record tool =
  tool_type :: string
  display_width :: int
  display_height :: int
  environment :: string

datatype input_item =
    UserInputText string
  | ComputerCallOutput json json string

record request =
  model :: string
  previous_response_id :: "json option"
  tools :: "tool list"
  input :: "input_item list"
  reasoning_summary :: "string option"
  truncation :: string

datatype console_entry =
    WarnMissingUrl json
  | ErrorNavigate json error
  | WarnUnrecognized string

record world =
  calls :: "pw_call list"
  sent :: "request list"
  console :: "console_entry list"

text \<open>
  What the agent does not decide: whether a Playwright call rejects (given the calls made
  before it), the bytes of a screenshot in base 64, the reply of the model service to the
  payloads sent so far, and how the runtime prints a number that is no safe integer
  (\<^verbatim>\<open>Number.prototype.toString\<close> at magnitude 9007199254740992 and above).
\<close>

datatype reply = Reply json | TransportFailure

record env =
  page_throws :: "pw_call list \<Rightarrow> pw_call \<Rightarrow> bool"
  screenshot_data :: "pw_call list \<Rightarrow> string"
  model_reply :: "request list \<Rightarrow> reply"
  number_text :: "int \<Rightarrow> string"

text \<open>An awaited call either rejects, which ends the sequence it stands in, or hands
  its value to the rest.\<close>

definition and_then ::
  "(error + 'a) \<times> world \<Rightarrow> ('a \<Rightarrow> world \<Rightarrow> (error + 'b) \<times> world) \<Rightarrow> (error + 'b) \<times> world" where
  "and_then m f = (case m of (Inl err, w) \<Rightarrow> (Inl err, w) | (Inr x, w) \<Rightarrow> f x w)"

definition pw :: "env \<Rightarrow> pw_call \<Rightarrow> world \<Rightarrow> (error + unit) \<times> world" where
  "pw e c w =
     (if page_throws e (calls w) c
      then (Inl (PlaywrightError c), w\<lparr>calls := calls w @ [c]\<rparr>)
      else (Inr (), w\<lparr>calls := calls w @ [c]\<rparr>))"

definition warn :: "console_entry \<Rightarrow> world \<Rightarrow> world" where
  "warn entry w = w\<lparr>console := console w @ [entry]\<rparr>"

section \<open>launchSandboxedBrowser\<close>

text \<open>\<^verbatim>\<open>chromium.launch\<close> with its options \<^verbatim>\<open>headless\<close>, \<^verbatim>\<open>chromiumSandbox\<close>, \<^verbatim>\<open>env\<close>
  and \<^verbatim>\<open>args\<close>.\<close>

definition chromium_launch :: pw_call where
  "chromium_launch =
     ChromiumLaunch False True [] [''--disable-extensions'', ''--disable-file-system'']"

definition launchSandboxedBrowser :: "env \<Rightarrow> world \<Rightarrow> (error + unit) \<times> world" where
  "launchSandboxedBrowser e w =
     and_then (pw e chromium_launch w)
       (\<lambda>_ w1. and_then (pw e BrowserNewPage w1)
         (\<lambda>_ w2. pw e (SetViewportSize 1024 768) w2))"

section \<open>Conversion to strings\<close>

text \<open>Decimal digits of a natural number.\<close>

fun show_nat :: "nat \<Rightarrow> string" where
  "show_nat n =
     (if n < 10 then [char_of (48 + n)] else show_nat (n div 10) @ [char_of (48 + n mod 10)])"

text \<open>\<^verbatim>\<open>Number.prototype.toString\<close>: a safe integer prints as its decimal digits.\<close>

definition number_string :: "env \<Rightarrow> int \<Rightarrow> string" where
  "number_string e n =
     (if - 9007199254740992 < n \<and> n < 9007199254740992
      then (if n < 0 then ''-'' @ show_nat (nat (- n)) else show_nat (nat n))
      else number_text e n)"

text \<open>
  \<open>to_string\<close> is the conversion a template literal applies, \<open>join_elements\<close> is
  \<^verbatim>\<open>Array.prototype.join\<close>, which prints a nullish element as the empty string and converts
  the others.  An object inherits a \<^verbatim>\<open>toString\<close> that prints \<^verbatim>\<open>[object Object]\<close>; an object
  with a property \<^verbatim>\<open>toString\<close> of its own, which in a payload is never a function, cannot be
  converted and the conversion throws.  An array prints as its elements joined by commas.
\<close>

fun to_string :: "env \<Rightarrow> json \<Rightarrow> error + string"
  and join_elements :: "env \<Rightarrow> string \<Rightarrow> json list \<Rightarrow> error + string" where
  "to_string e JUndefined = Inr ''undefined''"
| "to_string e JNull = Inr ''null''"
| "to_string e (JBool b) = Inr (if b then ''true'' else ''false'')"
| "to_string e (JNum n) = Inr (number_string e n)"
| "to_string e (JStr s) = Inr s"
| "to_string e (JArr xs) = join_elements e '','' xs"
| "to_string e (JObj kvs) =
     (case map_of kvs ''toString'' of
        Some _ \<Rightarrow> Inl TypeError
      | None \<Rightarrow> Inr ''[object Object]'')"
| "join_elements e sep [] = Inr []"
| "join_elements e sep (x # xs) =
     (case (if nullish x then Inr [] else to_string e x) of
        Inl err \<Rightarrow> Inl err
      | Inr s \<Rightarrow>
          (case xs of
             [] \<Rightarrow> Inr s
           | _ # _ \<Rightarrow>
               (case join_elements e sep xs of
                  Inl err \<Rightarrow> Inl err
                | Inr rest \<Rightarrow> Inr (s @ sep @ rest))))"

section \<open>handleModelAction\<close>

text \<open>\<^verbatim>\<open>for (const key of keys)\<close>: an array yields its elements, a string its
  characters, anything else is not iterable.\<close>

fun iterate :: "json \<Rightarrow> error + json list" where
  "iterate (JArr xs) = Inr xs"
| "iterate (JStr s) = Inr (map (\<lambda>c. JStr [c]) s)"
| "iterate _ = Inl TypeError"

fun press_keys :: "env \<Rightarrow> json list \<Rightarrow> world \<Rightarrow> (error + unit) \<times> world" where
  "press_keys e [] w = (Inr (), w)"
| "press_keys e (k # ks) w = and_then (pw e (KeyboardPress k) w) (\<lambda>_ w'. press_keys e ks w')"

text \<open>The body shared by the cases \<^verbatim>\<open>"open_url"\<close>, \<^verbatim>\<open>"goto"\<close> and \<^verbatim>\<open>"navigate"\<close>.\<close>

definition navigate_case :: "env \<Rightarrow> json \<Rightarrow> world \<Rightarrow> (error + unit) \<times> world" where
  "navigate_case e action w =
     (let url = field ''url'' action;
          wait_until = default_to (field ''wait_until'' action) (JStr ''load'')
      in if \<not> truthy url \<or> typeof_js url \<noteq> ''string''
         then (Inr (), warn (WarnMissingUrl action) w)
         else (case pw e (Goto url wait_until) w of
                 (Inl err, w') \<Rightarrow> (Inr (), warn (ErrorNavigate url err) w')
               | (Inr _, w') \<Rightarrow> (Inr (), w')))"

definition handleModelAction :: "env \<Rightarrow> json \<Rightarrow> world \<Rightarrow> (error + unit) \<times> world" where
  "handleModelAction e action w =
     (if nullish action then (Inl TypeError, w)
      else let t = field ''type'' action in
        if t = JStr ''click'' then
          pw e (MouseClick (field ''x'' action) (field ''y'' action)
                  (default_to (field ''button'' action) (JStr ''left''))) w
        else if t = JStr ''double_click'' then
          pw e (MouseDblclick (field ''x'' action) (field ''y'' action)
                  (default_to (field ''button'' action) (JStr ''left''))) w
        else if t = JStr ''scroll'' then
          and_then (pw e (MouseMove (field ''x'' action) (field ''y'' action)) w)
            (\<lambda>_ w'. pw e (EvaluateScrollBy (field ''scroll_x'' action) (field ''scroll_y'' action)) w')
        else if t = JStr ''type'' then
          pw e (KeyboardType (field ''text'' action)) w
        else if t = JStr ''keypress'' then
          (case iterate (field ''keys'' action) of
             Inl err \<Rightarrow> (Inl err, w)
           | Inr ks \<Rightarrow> press_keys e ks w)
        else if t = JStr ''wait'' then
          pw e (WaitForTimeout (coalesce (field ''duration'' action) (JNum 1000))) w
        else if t = JStr ''open_url'' \<or> t = JStr ''goto'' \<or> t = JStr ''navigate'' then
          navigate_case e action w
        else if t = JStr ''screenshot'' then (Inr (), w)
        else (case to_string e t of
                Inl err \<Rightarrow> (Inl err, w)
              | Inr kind \<Rightarrow> (Inr (), warn (WarnUnrecognized kind) w)))"

section \<open>captureScreenshot\<close>

definition captureScreenshot :: "env \<Rightarrow> world \<Rightarrow> (error + string) \<times> world" where
  "captureScreenshot e w =
     and_then (pw e (PageScreenshot True) w) (\<lambda>_ w'. (Inr (screenshot_data e (calls w)), w'))"

section \<open>runComputerUseAgent\<close>

text \<open>\<^verbatim>\<open>openai.responses.create(payload)\<close>.\<close>

definition create_response :: "env \<Rightarrow> request \<Rightarrow> world \<Rightarrow> (error + json) \<times> world" where
  "create_response e req w =
     (case model_reply e (sent w @ [req]) of
        TransportFailure \<Rightarrow> (Inl TransportError, w\<lparr>sent := sent w @ [req]\<rparr>)
      | Reply r \<Rightarrow> (Inr r, w\<lparr>sent := sent w @ [req]\<rparr>))"

definition computer_tool :: tool where
  "computer_tool =
     \<lparr>tool_type = ''computer_use_preview'', display_width = 1024, display_height = 768,
      environment = ''browser''\<rparr>"

definition first_request :: "string \<Rightarrow> request" where
  "first_request prompt =
     \<lparr>model = ''computer-use-preview'', previous_response_id = None, tools = [computer_tool],
      input = [UserInputText prompt], reasoning_summary = Some ''concise'',
      truncation = ''auto''\<rparr>"

definition screenshot_request :: "json \<Rightarrow> json \<Rightarrow> json \<Rightarrow> string \<Rightarrow> request" where
  "screenshot_request response_id call_id acknowledgedSafety screenshotBase64 =
     \<lparr>model = ''computer-use-preview'', previous_response_id = Some response_id,
      tools = [computer_tool],
      input = [ComputerCallOutput call_id acknowledgedSafety
                 (''data:image/png;base64,'' @ screenshotBase64)],
      reasoning_summary = None, truncation = ''auto''\<rparr>"

text \<open>\<^verbatim>\<open>items.find(item => item.type === t)\<close>; reading \<^verbatim>\<open>.type\<close> of a nullish item
  throws, no match gives \<^verbatim>\<open>undefined\<close>.\<close>

fun find_type :: "string \<Rightarrow> json list \<Rightarrow> error + json" where
  "find_type t [] = Inr JUndefined"
| "find_type t (item # items) =
     (if nullish item then Inl TypeError
      else if field ''type'' item = JStr t then Inr item
      else find_type t items)"

text \<open>\<^verbatim>\<open>response.output?.find(...)\<close>: a nullish \<^verbatim>\<open>output\<close> short-circuits, an array is
  searched, any other value has no \<^verbatim>\<open>find\<close> to call.\<close>

definition find_computer_call :: "json \<Rightarrow> error + json" where
  "find_computer_call response =
     (if nullish response then Inl TypeError
      else case field ''output'' response of
             JUndefined \<Rightarrow> Inr JUndefined
           | JNull \<Rightarrow> Inr JUndefined
           | JArr items \<Rightarrow> find_type ''computer_call'' items
           | _ \<Rightarrow> Inl TypeError)"

text \<open>\<^verbatim>\<open>items.filter(item => item.type === "text" || item.type === "reasoning")\<close>.\<close>

fun filter_text :: "json list \<Rightarrow> error + json list" where
  "filter_text [] = Inr []"
| "filter_text (item # items) =
     (if nullish item then Inl TypeError
      else case filter_text items of
             Inl err \<Rightarrow> Inl err
           | Inr rest \<Rightarrow>
               Inr (if field ''type'' item = JStr ''text'' \<or> field ''type'' item = JStr ''reasoning''
                    then item # rest else rest))"

text \<open>\<^verbatim>\<open>v[0]\<close> for a value that is not nullish.\<close>

fun index0 :: "json \<Rightarrow> json" where
  "index0 (JArr (x # _)) = x"
| "index0 (JStr (c # _)) = JStr [c]"
| "index0 (JObj kvs) = (case map_of kvs ''0'' of None \<Rightarrow> JUndefined | Some v \<Rightarrow> v)"
| "index0 _ = JUndefined"

text \<open>\<^verbatim>\<open>item.text ?? item.summary?.[0]?.text ?? ""\<close> for an item that passed the filter.\<close>

definition item_text :: "json \<Rightarrow> json" where
  "item_text item =
     coalesce (field ''text'' item)
       (coalesce
          (let summary = field ''summary'' item in
           if nullish summary then JUndefined
           else let first = index0 summary in
             if nullish first then JUndefined else field ''text'' first)
          (JStr []))"

text \<open>What the loop returns: \<^verbatim>\<open>textParts?.join("\n") ?? ""\<close>.\<close>

definition final_text :: "env \<Rightarrow> json \<Rightarrow> error + string" where
  "final_text e response =
     (if nullish response then Inl TypeError
      else case field ''output'' response of
             JUndefined \<Rightarrow> Inr []
           | JNull \<Rightarrow> Inr []
           | JArr items \<Rightarrow>
               (case filter_text items of
                  Inl err \<Rightarrow> Inl err
                | Inr kept \<Rightarrow> join_elements e [CHR 0x0A] (map item_text kept))
           | _ \<Rightarrow> Inl TypeError)"

text \<open>One pass through the body of \<^verbatim>\<open>while (true)\<close>: it returns, throws, or leaves the
  next response for the following pass.  The delay after the action is \<open>settle\<close>.  The
  loop reads \<^verbatim>\<open>action.type\<close> for its log line before it calls the dispatcher; on a
  nullish action that read throws where the first line of the dispatcher would, with
  nothing done in between.\<close>

definition settle :: pw_call where
  "settle = WaitForTimeout (JNum 750)"

datatype pass = Return string | Throw error | Next json

definition loop_body :: "env \<Rightarrow> json \<Rightarrow> world \<Rightarrow> pass \<times> world" where
  "loop_body e response w =
     (case find_computer_call response of
        Inl err \<Rightarrow> (Throw err, w)
      | Inr computerCall \<Rightarrow>
          if \<not> truthy computerCall then
            (case final_text e response of
               Inl err \<Rightarrow> (Throw err, w)
             | Inr text \<Rightarrow> (Return text, w))
          else
            let action = field ''action'' computerCall;
                call_id = field ''call_id'' computerCall
            in (case
                 and_then (handleModelAction e action w)
                   (\<lambda>_ w1. and_then (pw e settle w1)
                     (\<lambda>_ w2. and_then (captureScreenshot e w2)
                       (\<lambda>screenshotBase64 w3.
                          create_response e
                            (screenshot_request (field ''id'' response) call_id
                               (coalesce (field ''pending_safety_checks'' computerCall) (JArr []))
                               screenshotBase64) w3)))
               of
                 (Inl err, w') \<Rightarrow> (Throw err, w')
               | (Inr response', w') \<Rightarrow> (Next response', w')))"

text \<open>The loop has no bound of its own; the first argument bounds the passes looked at,
  and \<open>None\<close> says that the loop is still running after that many.\<close>

fun agent_loop :: "env \<Rightarrow> nat \<Rightarrow> json \<Rightarrow> world \<Rightarrow> (error + string) option \<times> world" where
  "agent_loop e 0 response w = (None, w)"
| "agent_loop e (Suc n) response w =
     (case loop_body e response w of
        (Return text, w') \<Rightarrow> (Some (Inr text), w')
      | (Throw err, w') \<Rightarrow> (Some (Inl err), w')
      | (Next response', w') \<Rightarrow> agent_loop e n response' w')"

definition start_world :: world where
  "start_world = \<lparr>calls = [], sent = [], console = []\<rparr>"

text \<open>The block under \<^verbatim>\<open>try\<close> is \<open>session_body\<close>: the first request, then the loop.
  The browser is launched before the \<^verbatim>\<open>try\<close>; the \<^verbatim>\<open>finally\<close> closes it once the
  block has returned or thrown, and a rejected \<^verbatim>\<open>close\<close> replaces the outcome.  While the
  loop is still running nothing has been closed.\<close>

definition session_body :: "env \<Rightarrow> nat \<Rightarrow> string \<Rightarrow> world \<Rightarrow> (error + string) option \<times> world" where
  "session_body e fuel prompt w0 =
     (case create_response e (first_request prompt) w0 of
        (Inl err, w1) \<Rightarrow> (Some (Inl err), w1)
      | (Inr response, w1) \<Rightarrow> agent_loop e fuel response w1)"

definition runComputerUseAgent :: "env \<Rightarrow> nat \<Rightarrow> string \<Rightarrow> (error + string) option \<times> world" where
  "runComputerUseAgent e fuel prompt =
     (case launchSandboxedBrowser e start_world of
        (Inl err, w0) \<Rightarrow> (Some (Inl err), w0)
      | (Inr _, w0) \<Rightarrow>
          (case session_body e fuel prompt w0 of
             (None, w2) \<Rightarrow> (None, w2)
           | (Some outcome, w2) \<Rightarrow>
               (case pw e BrowserClose w2 of
                  (Inl err, w3) \<Rightarrow> (Some (Inl err), w3)
                | (Inr _, w3) \<Rightarrow> (Some outcome, w3))))"

section \<open>Notions used in the statements\<close>

text \<open>The kinds that have a \<^verbatim>\<open>case\<close> of their own in the \<^verbatim>\<open>switch\<close> of
  \<open>handleModelAction\<close>; every other value of \<^verbatim>\<open>action.type\<close> falls to \<^verbatim>\<open>default\<close>.\<close>

definition recognised :: "json \<Rightarrow> bool" where
  "recognised t \<longleftrightarrow>
     t \<in> set (map JStr [''click'', ''double_click'', ''scroll'', ''type'', ''keypress'', ''wait'',
                        ''open_url'', ''goto'', ''navigate'', ''screenshot''])"

text \<open>The Playwright calls that occur in \<open>handleModelAction\<close>: neither a screenshot
  nor a call on the browser itself is among them.\<close>

fun dispatch_call :: "pw_call \<Rightarrow> bool" where
  "dispatch_call (MouseClick _ _ _) = True"
| "dispatch_call (MouseDblclick _ _ _) = True"
| "dispatch_call (MouseMove _ _) = True"
| "dispatch_call (EvaluateScrollBy _ _) = True"
| "dispatch_call (KeyboardType _) = True"
| "dispatch_call (KeyboardPress _) = True"
| "dispatch_call (WaitForTimeout _) = True"
| "dispatch_call (Goto _ _) = True"
| "dispatch_call _ = False"

text \<open>The items of a response, none when \<^verbatim>\<open>output\<close> is absent, and its computer
  calls.\<close>

definition output_items :: "json \<Rightarrow> json list" where
  "output_items response = (case field ''output'' response of JArr items \<Rightarrow> items | _ \<Rightarrow> [])"

definition computer_calls :: "json \<Rightarrow> json list" where
  "computer_calls response =
     filter (\<lambda>item. field ''type'' item = JStr ''computer_call'') (output_items response)"

text \<open>
  A turn as the data model of the specification has it (section 3, ModelTurn): a list of
  items, each a text with its string, a reasoning item with the texts of its summary
  parts, a computer call with its identifier, action and pending safety checks, or an
  item of some other type with whatever it carries.  \<open>turn\<close> is the payload that delivers
  such a list; \<open>proper\<close> keeps an item of another type from bearing one of the three names.
\<close>

datatype item =
    TextItem string
  | ReasoningItem "string list"
  | CallItem json json json
  | OtherItem string "(string \<times> json) list"

fun encode_item :: "item \<Rightarrow> json" where
  "encode_item (TextItem s) = JObj [(''type'', JStr ''text''), (''text'', JStr s)]"
| "encode_item (ReasoningItem parts) =
     JObj [(''type'', JStr ''reasoning''),
           (''summary'', JArr (map (\<lambda>p. JObj [(''type'', JStr ''summary_text''), (''text'', JStr p)]) parts))]"
| "encode_item (CallItem call_id action pending) =
     JObj [(''type'', JStr ''computer_call''), (''call_id'', call_id), (''action'', action),
           (''pending_safety_checks'', pending)]"
| "encode_item (OtherItem t props) = JObj ((''type'', JStr t) # props)"

definition turn :: "json \<Rightarrow> item list \<Rightarrow> json" where
  "turn response_id items =
     JObj [(''id'', response_id), (''output'', JArr (map encode_item items))]"

fun is_call :: "item \<Rightarrow> bool" where
  "is_call (CallItem _ _ _) = True"
| "is_call _ = False"

fun proper :: "item \<Rightarrow> bool" where
  "proper (OtherItem t _) = (t \<noteq> ''text'' \<and> t \<noteq> ''reasoning'' \<and> t \<noteq> ''computer_call'')"
| "proper _ = True"

text \<open>
  The line an item gives to the result: a text item its text, a reasoning item the text
  of its first summary part, or an empty line when it has no part; any other item none.
  The result of a turn is its lines in order, every line after the first preceded by one
  newline.
\<close>

fun line :: "item \<Rightarrow> string option" where
  "line (TextItem s) = Some s"
| "line (ReasoningItem []) = Some []"
| "line (ReasoningItem (p # _)) = Some p"
| "line _ = None"

definition resolved_text :: "item list \<Rightarrow> string" where
  "resolved_text items =
     (case List.map_filter line items of
        [] \<Rightarrow> []
      | first # rest \<Rightarrow> first @ concat (map (\<lambda>l. CHR 0x0A # l) rest))"

text \<open>A response as the service delivers it: an object whose \<^verbatim>\<open>output\<close>, when present,
  is an array without \<^verbatim>\<open>null\<close> entries.\<close>

definition well_formed :: "json \<Rightarrow> bool" where
  "well_formed response \<longleftrightarrow>
     \<not> nullish response \<and>
     (case field ''output'' response of
        JUndefined \<Rightarrow> True
      | JNull \<Rightarrow> True
      | JArr items \<Rightarrow> list_all (\<lambda>item. \<not> nullish item) items
      | _ \<Rightarrow> False)"

text \<open>The payload of the pass that handles the computer call \<open>c\<close> of the response
  \<open>r\<close>.\<close>

definition report :: "json \<Rightarrow> json \<Rightarrow> string \<Rightarrow> request" where
  "report r c shot =
     screenshot_request (field ''id'' r) (field ''call_id'' c)
       (coalesce (field ''pending_safety_checks'' c) (JArr [])) shot"

text \<open>The operations of the Browser Session of the specification (section 4.1), the
  Playwright calls each one stands for, and the operation the specification's data model
  (section 3) attaches to an action with valid parameters.  \<open>matching_primitive\<close> follows the
  words of the specification; it is compared with \<open>handleModelAction\<close> below.\<close>

datatype primitive =
    Click json json json
  | DoubleClick json json json
  | Scroll json json json json
  | TypeText json
  | PressKeys "json list"
  | Wait json
  | Navigate json json

fun primitive_calls :: "primitive \<Rightarrow> pw_call list" where
  "primitive_calls (Click x y button) = [MouseClick x y button]"
| "primitive_calls (DoubleClick x y button) = [MouseDblclick x y button]"
| "primitive_calls (Scroll x y dx dy) = [MouseMove x y, EvaluateScrollBy dx dy]"
| "primitive_calls (TypeText t) = [KeyboardType t]"
| "primitive_calls (PressKeys ks) = map KeyboardPress ks"
| "primitive_calls (Wait d) = [WaitForTimeout d]"
| "primitive_calls (Navigate url policy) = [Goto url policy]"

definition matching_primitive :: "json \<Rightarrow> primitive option" where
  "matching_primitive a =
     (let t = field ''type'' a in
      if t = JStr ''click'' then
        Some (Click (field ''x'' a) (field ''y'' a) (default_to (field ''button'' a) (JStr ''left'')))
      else if t = JStr ''double_click'' then
        Some (DoubleClick (field ''x'' a) (field ''y'' a) (default_to (field ''button'' a) (JStr ''left'')))
      else if t = JStr ''scroll'' then
        Some (Scroll (field ''x'' a) (field ''y'' a) (field ''scroll_x'' a) (field ''scroll_y'' a))
      else if t = JStr ''type'' then Some (TypeText (field ''text'' a))
      else if t = JStr ''keypress'' then
        (case field ''keys'' a of JArr ks \<Rightarrow> Some (PressKeys ks) | _ \<Rightarrow> None)
      else if t = JStr ''wait'' then Some (Wait (coalesce (field ''duration'' a) (JNum 1000)))
      else if t = JStr ''open_url'' \<or> t = JStr ''goto'' \<or> t = JStr ''navigate'' then
        (case field ''url'' a of
           JStr u \<Rightarrow>
             if u = [] then None
             else Some (Navigate (JStr u) (default_to (field ''wait_until'' a) (JStr ''load'')))
         | _ \<Rightarrow> None)
      else None)"

text \<open>No call of the sequence is rejected by the page when the calls are made in this
  order.\<close>

fun accepted :: "env \<Rightarrow> pw_call list \<Rightarrow> pw_call list \<Rightarrow> bool" where
  "accepted e before [] = True"
| "accepted e before (c # cs) = (\<not> page_throws e before c \<and> accepted e (before @ [c]) cs)"

text \<open>The line of the missing-URL warning quotes the whole action, kind included;
  \<open>unquoted\<close> blanks the quotation and keeps everything else of a console line.\<close>

fun unquoted :: "console_entry \<Rightarrow> console_entry" where
  "unquoted (WarnMissingUrl _) = WarnMissingUrl JUndefined"
| "unquoted entry = entry"

text \<open>The three kinds that share the navigation case.\<close>

definition navigates :: "json \<Rightarrow> bool" where
  "navigates t \<longleftrightarrow> t = JStr ''open_url'' \<or> t = JStr ''goto'' \<or> t = JStr ''navigate''"

text \<open>A value that has a string form: every string, number and boolean, \<^verbatim>\<open>null\<close>, a
  missing value, and the objects and arrays that hold no \<^verbatim>\<open>toString\<close> entry of their own
  where the conversion looks.\<close>

definition convertible :: "env \<Rightarrow> json \<Rightarrow> bool" where
  "convertible e v = (case to_string e v of Inl _ \<Rightarrow> False | Inr _ \<Rightarrow> True)"

text \<open>The actions whose failure the dispatcher absorbs before touching the page: an
  action that is not nullish, of an unrecognised kind that has a string form, or a
  navigation whose \<^verbatim>\<open>url\<close> is empty, missing or not a string.\<close>

definition absorbed :: "env \<Rightarrow> json \<Rightarrow> bool" where
  "absorbed e a \<longleftrightarrow>
     \<not> nullish a \<and>
     (\<not> recognised (field ''type'' a) \<and> convertible e (field ''type'' a) \<or>
      navigates (field ''type'' a) \<and>
        (\<not> truthy (field ''url'' a) \<or> typeof_js (field ''url'' a) \<noteq> ''string''))"

section \<open>Sample environments, turns and actions\<close>

text \<open>A model service that answers the \<open>k\<close>-th payload with the \<open>k\<close>-th reply of a list
  and is out of reach afterwards; a page on which every call succeeds; a page that rejects
  one given call.\<close>

definition scripted :: "json list \<Rightarrow> request list \<Rightarrow> reply" where
  "scripted replies reqs =
     (case drop (length reqs - 1) replies of [] \<Rightarrow> TransportFailure | r # _ \<Rightarrow> Reply r)"

definition quiet_env :: "json list \<Rightarrow> env" where
  "quiet_env replies =
     \<lparr>page_throws = (\<lambda>_ _. False), screenshot_data = (\<lambda>_. ''iVBORw0KGgo=''),
      model_reply = scripted replies, number_text = (\<lambda>_. ''Infinity'')\<rparr>"

definition rejecting_env :: "pw_call \<Rightarrow> json list \<Rightarrow> env" where
  "rejecting_env bad replies =
     \<lparr>page_throws = (\<lambda>_ c. c = bad), screenshot_data = (\<lambda>_. ''iVBORw0KGgo=''),
      model_reply = scripted replies, number_text = (\<lambda>_. ''Infinity'')\<rparr>"

text \<open>The turns of the scenario of the specification: a click at (50, 50), carrying a
  pending safety check and some text, then a turn with two text fragments and no action; a
  turn asking for the unknown kind \<^verbatim>\<open>drag\<close>.\<close>

definition click_call :: json where
  "click_call =
     JObj [(''type'', JStr ''computer_call''), (''call_id'', JStr ''call_1''),
           (''action'', JObj [(''type'', JStr ''click''), (''x'', JNum 50), (''y'', JNum 50)]),
           (''pending_safety_checks'', JArr [JObj [(''id'', JStr ''sc_1'')]])]"

definition click_turn :: json where
  "click_turn =
     JObj [(''id'', JStr ''resp_1''),
           (''output'', JArr [JObj [(''type'', JStr ''text''), (''text'', JStr ''Clicking'')],
                             click_call])]"

definition done_turn :: json where
  "done_turn =
     JObj [(''id'', JStr ''resp_2''),
           (''output'', JArr [JObj [(''type'', JStr ''text''), (''text'', JStr ''Done'')],
                             JObj [(''type'', JStr ''text''), (''text'', JStr ''Task complete'')]])]"

definition drag_call :: json where
  "drag_call =
     JObj [(''type'', JStr ''computer_call''), (''call_id'', JStr ''call_7''),
           (''action'', JObj [(''type'', JStr ''drag'')])]"

definition drag_turn :: json where
  "drag_turn = JObj [(''id'', JStr ''resp_7''), (''output'', JArr [drag_call])]"



definition odd_kind_action :: json where
  "odd_kind_action = JObj [(''type'', JObj [(''toString'', JNum 1)])]"

definition odd_kind_turn :: json where
  "odd_kind_turn =
     JObj [(''id'', JStr ''resp_8''),
           (''output'', JArr [JObj [(''type'', JStr ''computer_call''), (''call_id'', JStr ''call_8''),
                                   (''action'', odd_kind_action)]])]"

definition actionless_turn :: json where
  "actionless_turn =
     JObj [(''id'', JStr ''resp_9''),
           (''output'', JArr [JObj [(''type'', JStr ''computer_call''), (''call_id'', JStr ''call_9''),
                                   (''action'', JNull)]])]"

text \<open>Single actions.\<close>

definition wait_action :: json where
  "wait_action = JObj [(''type'', JStr ''wait'')]"

definition long_wait_action :: json where
  "long_wait_action = JObj [(''type'', JStr ''wait''), (''duration'', JNum 2500)]"

definition screenshot_action :: json where
  "screenshot_action = JObj [(''type'', JStr ''screenshot'')]"

definition scroll_action :: json where
  "scroll_action =
     JObj [(''type'', JStr ''scroll''), (''x'', JNum 10), (''y'', JNum 20),
           (''scroll_x'', JNum 0), (''scroll_y'', JNum 300)]"

definition goto_action :: json where
  "goto_action = JObj [(''type'', JStr ''goto''), (''url'', JStr ''https://example.com'')]"

definition navigate_action :: json where
  "navigate_action = JObj [(''type'', JStr ''navigate''), (''url'', JStr ''https://example.com'')]"

definition urlless_action :: json where
  "urlless_action = JObj [(''type'', JStr ''navigate''), (''url'', JNum 7)]"

text \<open>The world after a successful launch and the first request for the task
  \<^verbatim>\<open>task\<close>.\<close>

definition opened_world :: world where
  "opened_world =
     \<lparr>calls = [chromium_launch, BrowserNewPage, SetViewportSize 1024 768],
      sent = [first_request ''task''], console = []\<rparr>"

definition drag_action :: json where
  "drag_action = JObj [(''type'', JStr ''drag'')]"

section \<open>Single calls and the dispatcher\<close>

lemma pw_calls [simp]: "calls (snd (pw e c w)) = calls w @ [c]"
  by (simp add: pw_def)

lemma pw_sent [simp]: "sent (snd (pw e c w)) = sent w"
  by (simp add: pw_def)

lemma pw_console [simp]: "console (snd (pw e c w)) = console w"
  by (simp add: pw_def)

lemma pw_accepted: "\<not> page_throws e (calls w) c \<Longrightarrow> pw e c w = (Inr (), w\<lparr>calls := calls w @ [c]\<rparr>)"
  by (simp add: pw_def)

lemma pw_rejected: "page_throws e (calls w) c \<Longrightarrow> pw e c w = (Inl (PlaywrightError c), w\<lparr>calls := calls w @ [c]\<rparr>)"
  by (simp add: pw_def)

lemma and_then_Inr [simp]: "and_then (Inr x, w) f = f x w"
  by (simp add: and_then_def)

lemma and_then_Inl [simp]: "and_then (Inl err, w) f = (Inl err, w)"
  by (simp add: and_then_def)

lemma press_keys_sent [simp]: "sent (snd (press_keys e ks w)) = sent w"
proof (induction ks arbitrary: w)
  case Nil
  show ?case by simp
next
  case (Cons k ks)
  show ?case
  proof (cases "page_throws e (calls w) (KeyboardPress k)")
    case True
    then show ?thesis by (simp add: pw_rejected)
  next
    case False
    then show ?thesis using Cons.IH by (simp add: pw_accepted)
  qed
qed

lemma press_keys_calls:
  "\<exists>n. calls (snd (press_keys e ks w)) = calls w @ map KeyboardPress (take n ks)"
proof (induction ks arbitrary: w)
  case Nil
  show ?case by simp
next
  case (Cons k ks)
  show ?case
  proof (cases "page_throws e (calls w) (KeyboardPress k)")
    case True
    have "calls (snd (press_keys e (k # ks) w)) = calls w @ map KeyboardPress (take 1 (k # ks))"
      using True by (simp add: pw_rejected)
    then show ?thesis by blast
  next
    case False
    obtain n where "calls (snd (press_keys e ks (w\<lparr>calls := calls w @ [KeyboardPress k]\<rparr>)))
        = calls (w\<lparr>calls := calls w @ [KeyboardPress k]\<rparr>) @ map KeyboardPress (take n ks)"
      using Cons.IH by blast
    then have "calls (snd (press_keys e (k # ks) w)) = calls w @ map KeyboardPress (take (Suc n) (k # ks))"
      using False by (simp add: pw_accepted)
    then show ?thesis by blast
  qed
qed

lemma press_keys_accepted:
  "accepted e (calls w) (map KeyboardPress ks) \<Longrightarrow>
   press_keys e ks w = (Inr (), w\<lparr>calls := calls w @ map KeyboardPress ks\<rparr>)"
proof (induction ks arbitrary: w)
  case Nil
  show ?case by simp
next
  case (Cons k ks)
  then show ?case by (simp add: pw_accepted)
qed

lemma field_not_nullish: "field k a = JStr s \<Longrightarrow> \<not> nullish a"
  by (cases a) simp_all

lemma handle_click:
  "field ''type'' a = JStr ''click'' \<Longrightarrow>
   handleModelAction e a w =
     pw e (MouseClick (field ''x'' a) (field ''y'' a) (default_to (field ''button'' a) (JStr ''left''))) w"
  by (simp add: handleModelAction_def field_not_nullish)

lemma handle_double_click:
  "field ''type'' a = JStr ''double_click'' \<Longrightarrow>
   handleModelAction e a w =
     pw e (MouseDblclick (field ''x'' a) (field ''y'' a) (default_to (field ''button'' a) (JStr ''left''))) w"
  by (simp add: handleModelAction_def field_not_nullish)

lemma handle_scroll:
  "field ''type'' a = JStr ''scroll'' \<Longrightarrow>
   handleModelAction e a w =
     and_then (pw e (MouseMove (field ''x'' a) (field ''y'' a)) w)
       (\<lambda>_ w'. pw e (EvaluateScrollBy (field ''scroll_x'' a) (field ''scroll_y'' a)) w')"
  by (simp add: handleModelAction_def field_not_nullish)

lemma handle_type:
  "field ''type'' a = JStr ''type'' \<Longrightarrow>
   handleModelAction e a w = pw e (KeyboardType (field ''text'' a)) w"
  by (simp add: handleModelAction_def field_not_nullish)

lemma handle_keypress:
  "field ''type'' a = JStr ''keypress'' \<Longrightarrow>
   handleModelAction e a w =
     (case iterate (field ''keys'' a) of Inl err \<Rightarrow> (Inl err, w) | Inr ks \<Rightarrow> press_keys e ks w)"
  by (simp add: handleModelAction_def field_not_nullish)

lemma handle_wait:
  "field ''type'' a = JStr ''wait'' \<Longrightarrow>
   handleModelAction e a w =
     pw e (WaitForTimeout (coalesce (field ''duration'' a) (JNum 1000))) w"
  by (simp add: handleModelAction_def field_not_nullish)

lemma handle_navigate:
  "field ''type'' a = JStr ''open_url'' \<or> field ''type'' a = JStr ''goto''
     \<or> field ''type'' a = JStr ''navigate'' \<Longrightarrow>
   handleModelAction e a w = navigate_case e a w"
  by (auto simp add: handleModelAction_def field_not_nullish)

lemma handle_screenshot:
  "field ''type'' a = JStr ''screenshot'' \<Longrightarrow> handleModelAction e a w = (Inr (), w)"
  by (simp add: handleModelAction_def field_not_nullish)

lemma handle_unrecognised:
  "\<not> nullish a \<Longrightarrow> \<not> recognised (field ''type'' a) \<Longrightarrow>
   handleModelAction e a w =
     (case to_string e (field ''type'' a) of
        Inl err \<Rightarrow> (Inl err, w)
      | Inr kind \<Rightarrow> (Inr (), warn (WarnUnrecognized kind) w))"
  by (simp add: handleModelAction_def recognised_def)

text \<open>The \<^verbatim>\<open>switch\<close> of the dispatcher, one case per branch.\<close>

lemma handle_cases:
  assumes "\<not> nullish a"
  obtains "field ''type'' a = JStr ''click''" | "field ''type'' a = JStr ''double_click''"
    | "field ''type'' a = JStr ''scroll''" | "field ''type'' a = JStr ''type''"
    | "field ''type'' a = JStr ''keypress''" | "field ''type'' a = JStr ''wait''"
    | "field ''type'' a = JStr ''open_url'' \<or> field ''type'' a = JStr ''goto''
         \<or> field ''type'' a = JStr ''navigate''"
    | "field ''type'' a = JStr ''screenshot''" | "\<not> recognised (field ''type'' a)"
  unfolding recognised_def by auto

lemma navigate_case_sent [simp]: "sent (snd (navigate_case e a w)) = sent w"
  by (simp add: navigate_case_def Let_def warn_def pw_def)

lemma navigate_case_calls:
  "calls (snd (navigate_case e a w)) = calls w \<or>
   calls (snd (navigate_case e a w)) =
     calls w @ [Goto (field ''url'' a) (default_to (field ''wait_until'' a) (JStr ''load''))]"
  by (simp add: navigate_case_def Let_def warn_def pw_def)

lemma navigate_case_eq:
  "navigate_case e a w =
     (Inr (),
      if \<not> truthy (field ''url'' a) \<or> typeof_js (field ''url'' a) \<noteq> ''string''
      then w\<lparr>console := console w @ [WarnMissingUrl a]\<rparr>
      else if page_throws e (calls w)
                (Goto (field ''url'' a) (default_to (field ''wait_until'' a) (JStr ''load'')))
      then w\<lparr>calls := calls w @ [Goto (field ''url'' a) (default_to (field ''wait_until'' a) (JStr ''load''))],
             console := console w @
               [ErrorNavigate (field ''url'' a)
                  (PlaywrightError (Goto (field ''url'' a) (default_to (field ''wait_until'' a) (JStr ''load''))))]\<rparr>
      else w\<lparr>calls := calls w @ [Goto (field ''url'' a) (default_to (field ''wait_until'' a) (JStr ''load''))]\<rparr>)"
  by (simp add: navigate_case_def Let_def pw_def warn_def)

lemma handle_sent [simp]: "sent (snd (handleModelAction e a w)) = sent w"
proof (cases "nullish a")
  case True
  then show ?thesis by (simp add: handleModelAction_def)
next
  case False
  then show ?thesis
  proof (cases rule: handle_cases)
    case 3
    then show ?thesis by (simp add: handle_scroll and_then_def pw_def)
  next
    case 5
    then show ?thesis by (simp add: handle_keypress split: sum.splits)
  qed (use False in \<open>simp_all add: handle_click handle_double_click handle_type handle_wait
        handle_navigate handle_screenshot handle_unrecognised warn_def split: sum.splits\<close>)
qed

lemma handle_calls:
  "\<exists>cs. calls (snd (handleModelAction e a w)) = calls w @ cs \<and> list_all dispatch_call cs"
proof (cases "nullish a")
  case True
  then show ?thesis by (simp add: handleModelAction_def)
next
  case False
  then show ?thesis
  proof (cases rule: handle_cases)
    case 3
    then show ?thesis by (simp add: handle_scroll and_then_def pw_def)
  next
    case 5
    show ?thesis
    proof (cases "iterate (field ''keys'' a)")
      case (Inl err)
      then show ?thesis using 5 by (simp add: handle_keypress)
    next
      case (Inr ks)
      obtain n where "calls (snd (press_keys e ks w)) = calls w @ map KeyboardPress (take n ks)"
        using press_keys_calls by blast
      then show ?thesis using 5 Inr by (simp add: handle_keypress list_all_iff)
    qed
  next
    case 7
    then show ?thesis using navigate_case_calls [of e a w] by (auto simp add: handle_navigate)
  qed (use False in \<open>simp_all add: handle_click handle_double_click handle_type handle_wait
        handle_screenshot handle_unrecognised warn_def split: sum.splits\<close>)
qed

lemma handle_bad_url:
  "navigates (field ''type'' a) \<Longrightarrow>
   \<not> truthy (field ''url'' a) \<or> typeof_js (field ''url'' a) \<noteq> ''string'' \<Longrightarrow>
   handleModelAction e a w = (Inr (), warn (WarnMissingUrl a) w)"
  by (simp add: navigates_def handle_navigate navigate_case_eq warn_def)

lemma handle_navigation_failure:
  "navigates (field ''type'' a) \<Longrightarrow> fst (handleModelAction e a w) = Inr ()"
  by (simp add: navigates_def handle_navigate navigate_case_eq)

lemma handle_goto_rejected:
  "navigates (field ''type'' a) \<Longrightarrow>
   truthy (field ''url'' a) \<Longrightarrow> typeof_js (field ''url'' a) = ''string'' \<Longrightarrow>
   page_throws e (calls w) (Goto (field ''url'' a) (default_to (field ''wait_until'' a) (JStr ''load''))) \<Longrightarrow>
   handleModelAction e a w =
     (Inr (),
      warn (ErrorNavigate (field ''url'' a)
              (PlaywrightError (Goto (field ''url'' a) (default_to (field ''wait_until'' a) (JStr ''load'')))))
        (w\<lparr>calls := calls w @ [Goto (field ''url'' a) (default_to (field ''wait_until'' a) (JStr ''load''))]\<rparr>))"
  by (simp add: navigates_def handle_navigate navigate_case_eq warn_def)

lemma handle_unrecognised_kind:
  "\<not> nullish a \<Longrightarrow> \<not> recognised (field ''type'' a) \<Longrightarrow>
   to_string e (field ''type'' a) = Inr kind \<Longrightarrow>
   handleModelAction e a w = (Inr (), w\<lparr>console := console w @ [WarnUnrecognized kind]\<rparr>)"
  by (simp add: handle_unrecognised warn_def)

lemma handle_absorbed:
  "absorbed e a \<Longrightarrow>
   fst (handleModelAction e a w) = Inr () \<and>
   calls (snd (handleModelAction e a w)) = calls w \<and>
   sent (snd (handleModelAction e a w)) = sent w \<and>
   (\<exists>entry. console (snd (handleModelAction e a w)) = console w @ [entry])"
  by (auto simp add: absorbed_def convertible_def handle_bad_url handle_unrecognised warn_def
        split: sum.splits)

lemma dispatch_accepted:
  assumes m: "matching_primitive a = Some p" and acc: "accepted e (calls w) (primitive_calls p)"
  shows "handleModelAction e a w = (Inr (), w\<lparr>calls := calls w @ primitive_calls p\<rparr>)"
proof -
  have "\<not> nullish a"
    using m by (cases a) (simp_all add: matching_primitive_def)
  then show ?thesis
  proof (cases rule: handle_cases)
    case 1
    then show ?thesis using m acc by (auto simp add: handle_click matching_primitive_def pw_accepted)
  next
    case 2
    then show ?thesis using m acc
      by (auto simp add: handle_double_click matching_primitive_def pw_accepted)
  next
    case 3
    then show ?thesis using m acc
      by (auto simp add: handle_scroll matching_primitive_def pw_accepted)
  next
    case 4
    then show ?thesis using m acc by (auto simp add: handle_type matching_primitive_def pw_accepted)
  next
    case 5
    then obtain ks where ks: "field ''keys'' a = JArr ks" "p = PressKeys ks"
      using m by (auto simp add: matching_primitive_def split: json.splits)
    then show ?thesis using 5 acc by (simp add: handle_keypress press_keys_accepted)
  next
    case 6
    then show ?thesis using m acc by (auto simp add: handle_wait matching_primitive_def pw_accepted)
  next
    case 7
    then obtain u where u: "field ''url'' a = JStr u" "u \<noteq> []"
        "p = Navigate (JStr u) (default_to (field ''wait_until'' a) (JStr ''load''))"
      using m by (auto simp add: matching_primitive_def split: json.splits if_splits)
    then show ?thesis using 7 acc
      by (simp add: handle_navigate navigate_case_def pw_accepted)
  next
    case 8
    then show ?thesis using m by (simp add: matching_primitive_def)
  next
    case 9
    then show ?thesis using m by (auto simp add: matching_primitive_def recognised_def split: if_splits)
  qed
qed

lemma dispatch_within_primitive:
  assumes m: "matching_primitive a = Some p"
  shows "\<exists>n. calls (snd (handleModelAction e a w)) = calls w @ take n (primitive_calls p)"
proof -
  have one: "\<exists>n. xs @ [c] = xs @ take n [c]" for xs :: "pw_call list" and c
    by (rule exI [of _ 1]) simp
  have "\<not> nullish a"
    using m by (cases a) (simp_all add: matching_primitive_def)
  then show ?thesis
  proof (cases rule: handle_cases)
    case 1
    then show ?thesis using m one by (auto simp add: handle_click matching_primitive_def)
  next
    case 2
    then show ?thesis using m one by (auto simp add: handle_double_click matching_primitive_def)
  next
    case 3
    then have p: "p = Scroll (field ''x'' a) (field ''y'' a) (field ''scroll_x'' a) (field ''scroll_y'' a)"
      using m by (auto simp add: matching_primitive_def)
    show ?thesis
    proof (cases "page_throws e (calls w) (MouseMove (field ''x'' a) (field ''y'' a))")
      case True
      then have "calls (snd (handleModelAction e a w)) = calls w @ take 1 (primitive_calls p)"
        using 3 p by (simp add: handle_scroll pw_rejected)
      then show ?thesis by blast
    next
      case False
      then have "calls (snd (handleModelAction e a w)) = calls w @ take 2 (primitive_calls p)"
        using 3 p by (simp add: handle_scroll pw_accepted)
      then show ?thesis by blast
    qed
  next
    case 4
    then show ?thesis using m one by (auto simp add: handle_type matching_primitive_def)
  next
    case 5
    then obtain ks where ks: "field ''keys'' a = JArr ks" "p = PressKeys ks"
      using m by (auto simp add: matching_primitive_def split: json.splits)
    then show ?thesis using 5 press_keys_calls [of e ks w] by (simp add: handle_keypress take_map)
  next
    case 6
    then show ?thesis using m one by (auto simp add: handle_wait matching_primitive_def)
  next
    case 7
    then obtain u where u: "field ''url'' a = JStr u" "u \<noteq> []"
        "p = Navigate (JStr u) (default_to (field ''wait_until'' a) (JStr ''load''))"
      using m by (auto simp add: matching_primitive_def split: json.splits if_splits)
    then have "calls (snd (handleModelAction e a w)) = calls w @ take 1 (primitive_calls p)"
      using 7 by (simp add: handle_navigate navigate_case_def pw_def warn_def Let_def)
    then show ?thesis by blast
  next
    case 8
    then show ?thesis using m by (simp add: matching_primitive_def)
  next
    case 9
    then show ?thesis using m by (auto simp add: matching_primitive_def recognised_def split: if_splits)
  qed
qed

section \<open>Reading a response\<close>

lemma find_type_Inr:
  "find_type t items = Inr c \<Longrightarrow>
     (c = JUndefined \<and> filter (\<lambda>item. field ''type'' item = JStr t) items = []) \<or>
     (field ''type'' c = JStr t \<and> (\<exists>rest. filter (\<lambda>item. field ''type'' item = JStr t) items = c # rest))"
  by (induction items) (auto split: if_splits)

lemma find_type_total:
  "list_all (\<lambda>item. \<not> nullish item) items \<Longrightarrow>
   find_type t items =
     Inr (case filter (\<lambda>item. field ''type'' item = JStr t) items of [] \<Rightarrow> JUndefined | c # _ \<Rightarrow> c)"
  by (induction items) auto

lemma filter_text_Inr:
  "filter_text items = Inr kept \<Longrightarrow>
   kept = filter (\<lambda>item. field ''type'' item = JStr ''text'' \<or> field ''type'' item = JStr ''reasoning'') items"
  by (induction items arbitrary: kept) (auto split: if_splits sum.splits)

lemma filter_text_total:
  "list_all (\<lambda>item. \<not> nullish item) items \<Longrightarrow>
   filter_text items =
     Inr (filter (\<lambda>item. field ''type'' item = JStr ''text'' \<or> field ''type'' item = JStr ''reasoning'') items)"
  by (induction items) auto

lemma typed_truthy: "field ''type'' c = JStr t \<Longrightarrow> truthy c"
  by (cases c) simp_all

lemma find_computer_call_Inr:
  "find_computer_call r = Inr c \<Longrightarrow>
     (c = JUndefined \<and> computer_calls r = []) \<or>
     (truthy c \<and> (\<exists>rest. computer_calls r = c # rest))"
  by (auto simp add: find_computer_call_def computer_calls_def output_items_def typed_truthy
        split: if_splits json.splits dest!: find_type_Inr)

lemma find_computer_call_total:
  "well_formed r \<Longrightarrow>
   find_computer_call r = Inr (case computer_calls r of [] \<Rightarrow> JUndefined | c # _ \<Rightarrow> c)"
  by (auto simp add: find_computer_call_def computer_calls_def output_items_def well_formed_def
        find_type_total split: json.splits)

lemma first_call_found:
  "well_formed r \<Longrightarrow> computer_calls r = c # rest \<Longrightarrow> find_computer_call r = Inr c \<and> truthy c"
proof -
  assume wf: "well_formed r" and cs: "computer_calls r = c # rest"
  have "c \<in> set (computer_calls r)"
    using cs by simp
  then have "field ''type'' c = JStr ''computer_call''"
    by (simp add: computer_calls_def)
  then have "truthy c"
    by (rule typed_truthy)
  moreover have "find_computer_call r = Inr c"
    using find_computer_call_total [OF wf] cs by simp
  ultimately show ?thesis by simp
qed

lemma encode_item_not_nullish [simp]: "\<not> nullish (encode_item x)"
  by (cases x) simp_all

lemma encode_item_is_call:
  "proper x \<Longrightarrow> field ''type'' (encode_item x) = JStr ''computer_call'' \<longleftrightarrow> is_call x"
  by (cases x) simp_all

lemma encode_item_has_line:
  "proper x \<Longrightarrow>
   field ''type'' (encode_item x) = JStr ''text'' \<or> field ''type'' (encode_item x) = JStr ''reasoning''
     \<longleftrightarrow> line x \<noteq> None"
proof (cases x)
  case (ReasoningItem parts)
  then show ?thesis by (cases parts) simp_all
qed simp_all

lemma item_text_encode: "line x = Some l \<Longrightarrow> item_text (encode_item x) = JStr l"
proof (cases x)
  case (ReasoningItem parts)
  assume "line x = Some l"
  then show ?thesis using ReasoningItem
    by (cases parts) (auto simp add: item_text_def coalesce_def)
qed (simp_all add: item_text_def coalesce_def)

lemma well_formed_turn: "well_formed (turn i items)"
  by (simp add: well_formed_def turn_def list_all_iff)

lemma computer_calls_turn:
  "list_all proper items \<Longrightarrow>
   computer_calls (turn i items) = map encode_item (filter is_call items)"
  by (induction items) (simp_all add: computer_calls_def output_items_def turn_def encode_item_is_call)

lemma filter_text_turn:
  "list_all proper items \<Longrightarrow>
   filter_text (map encode_item items) =
     Inr (map encode_item (filter (\<lambda>x. line x \<noteq> None) items))"
proof (induction items)
  case Nil
  show ?case by simp
next
  case (Cons x xs)
  then show ?case using encode_item_has_line [of x] by auto
qed

lemma texts_of_lines:
  "map item_text (map encode_item (filter (\<lambda>x. line x \<noteq> None) items)) =
     map JStr (List.map_filter line items)"
  by (induction items) (auto simp add: List.map_filter_simps item_text_encode)

lemma join_strings:
  "join_elements e sep (map JStr ls) =
     Inr (case ls of [] \<Rightarrow> [] | first # rest \<Rightarrow> first @ concat (map (\<lambda>l. sep @ l) rest))"
proof (induction ls)
  case Nil
  show ?case by simp
next
  case (Cons l ls)
  then show ?case by (cases ls) simp_all
qed

lemma final_text_turn:
  assumes "list_all proper items"
  shows "final_text e (turn i items) = Inr (resolved_text items)"
proof -
  have "final_text e (turn i items) =
          join_elements e [CHR 0x0A]
            (map item_text (map encode_item (filter (\<lambda>x. line x \<noteq> None) items)))"
    using assms by (simp add: final_text_def turn_def filter_text_turn del: map_map)
  also have "\<dots> = join_elements e [CHR 0x0A] (map JStr (List.map_filter line items))"
    by (simp only: texts_of_lines)
  also have "\<dots> = Inr (resolved_text items)"
  proof -
    have "(@) [CHR 0x0A] = (#) (CHR 0x0A)"
      by (rule ext) simp
    then show ?thesis
      unfolding join_strings resolved_text_def
      by (cases "List.map_filter line items") simp_all
  qed
  finally show ?thesis .
qed

lemma loop_body_Return:
  assumes ret: "fst (loop_body e r w) = Return s"
  shows "computer_calls r = [] \<and> final_text e r = Inr s \<and> snd (loop_body e r w) = w"
proof -
  obtain c where c: "find_computer_call r = Inr c"
    using ret by (cases "find_computer_call r") (simp_all add: loop_body_def)
  have nt: "\<not> truthy c"
    using ret c by (auto simp add: loop_body_def Let_def split: prod.splits sum.splits if_splits)
  then have "computer_calls r = []"
    using find_computer_call_Inr [OF c] by auto
  moreover have "final_text e r = Inr s" and "snd (loop_body e r w) = w"
    using ret c nt by (simp_all add: loop_body_def split: sum.splits)
  ultimately show ?thesis by simp
qed

lemma loop_body_terminal:
  assumes "list_all proper items" and "\<not> list_ex is_call items"
  shows "loop_body e (turn i items) w = (Return (resolved_text items), w)"
proof -
  have "filter is_call items = []"
    using assms(2) by (simp add: list_ex_iff filter_empty_conv)
  then have "computer_calls (turn i items) = []"
    using assms(1) by (simp add: computer_calls_turn)
  then have "find_computer_call (turn i items) = Inr JUndefined"
    using find_computer_call_total [OF well_formed_turn, of i items] by simp
  then show ?thesis
    using assms(1) by (simp add: loop_body_def final_text_turn)
qed


section \<open>One pass of the loop\<close>

text \<open>A pass that found a computer call ends in one of four ways: the dispatch throws,
  the settle delay throws, the screenshot throws, or the screenshot is reported to the
  model.\<close>

lemma loop_body_call_cases:
  assumes c: "find_computer_call r = Inr c" and t: "truthy c"
  obtains
    (dispatch_throws) err w1 where
      "handleModelAction e (field ''action'' c) w = (Inl err, w1)"
      "loop_body e r w = (Throw err, w1)"
  | (settle_throws) w1 where
      "handleModelAction e (field ''action'' c) w = (Inr (), w1)"
      "page_throws e (calls w1) settle"
      "loop_body e r w = (Throw (PlaywrightError settle), w1\<lparr>calls := calls w1 @ [settle]\<rparr>)"
  | (screenshot_throws) w1 where
      "handleModelAction e (field ''action'' c) w = (Inr (), w1)"
      "\<not> page_throws e (calls w1) settle"
      "page_throws e (calls w1 @ [settle]) (PageScreenshot True)"
      "loop_body e r w =
         (Throw (PlaywrightError (PageScreenshot True)),
          w1\<lparr>calls := calls w1 @ [settle, PageScreenshot True]\<rparr>)"
  | (reported) w1 shot where
      "handleModelAction e (field ''action'' c) w = (Inr (), w1)"
      "\<not> page_throws e (calls w1) settle"
      "\<not> page_throws e (calls w1 @ [settle]) (PageScreenshot True)"
      "shot = screenshot_data e (calls w1 @ [settle])"
      "loop_body e r w =
         (case model_reply e (sent w1 @ [report r c shot]) of
            TransportFailure \<Rightarrow> Throw TransportError
          | Reply r' \<Rightarrow> Next r',
          w1\<lparr>calls := calls w1 @ [settle, PageScreenshot True],
             sent := sent w1 @ [report r c shot]\<rparr>)"
proof -
  obtain res w1 where h: "handleModelAction e (field ''action'' c) w = (res, w1)"
    by (cases "handleModelAction e (field ''action'' c) w") blast
  show thesis
  proof (cases res)
    case (Inl err)
    then have "loop_body e r w = (Throw err, w1)"
      using c t h by (simp add: loop_body_def)
    then show thesis using dispatch_throws h Inl by blast
  next
    case (Inr u)
    then have h': "handleModelAction e (field ''action'' c) w = (Inr (), w1)"
      using h by simp
    show thesis
    proof (cases "page_throws e (calls w1) settle")
      case True
      then have "loop_body e r w = (Throw (PlaywrightError settle), w1\<lparr>calls := calls w1 @ [settle]\<rparr>)"
        using c t h' by (simp add: loop_body_def pw_def)
      then show thesis using settle_throws h' True by blast
    next
      case noset: False
      show thesis
      proof (cases "page_throws e (calls w1 @ [settle]) (PageScreenshot True)")
        case True
        then have "loop_body e r w =
           (Throw (PlaywrightError (PageScreenshot True)),
            w1\<lparr>calls := calls w1 @ [settle, PageScreenshot True]\<rparr>)"
          using c t h' noset by (simp add: loop_body_def pw_def captureScreenshot_def)
        then show thesis using screenshot_throws h' noset True by blast
      next
        case False
        then have "loop_body e r w =
           (case model_reply e (sent w1 @ [report r c (screenshot_data e (calls w1 @ [settle]))]) of
              TransportFailure \<Rightarrow> Throw TransportError
            | Reply r' \<Rightarrow> Next r',
            w1\<lparr>calls := calls w1 @ [settle, PageScreenshot True],
               sent := sent w1 @ [report r c (screenshot_data e (calls w1 @ [settle]))]\<rparr>)"
          using c t h' noset
          by (simp add: loop_body_def pw_def captureScreenshot_def create_response_def
                report_def split: reply.splits)
        then show thesis using reported [OF h' noset False refl] by blast
      qed
    qed
  qed
qed

lemma loop_body_no_call:
  "find_computer_call r = Inr c \<Longrightarrow> \<not> truthy c \<Longrightarrow> snd (loop_body e r w) = w"
  by (simp add: loop_body_def split: sum.splits)

lemma loop_body_find_throws:
  "find_computer_call r = Inl err \<Longrightarrow> loop_body e r w = (Throw err, w)"
  by (simp add: loop_body_def)

lemma loop_body_reported:
  assumes "find_computer_call r = Inr c" "truthy c"
    and h: "handleModelAction e (field ''action'' c) w = (Inr (), w1)"
    and s: "\<not> page_throws e (calls w1) settle"
    and p: "\<not> page_throws e (calls w1 @ [settle]) (PageScreenshot True)"
  shows "loop_body e r w =
         (case model_reply e (sent w @ [report r c (screenshot_data e (calls w1 @ [settle]))]) of
            TransportFailure \<Rightarrow> Throw TransportError
          | Reply r' \<Rightarrow> Next r',
          w1\<lparr>calls := calls w1 @ [settle, PageScreenshot True],
             sent := sent w @ [report r c (screenshot_data e (calls w1 @ [settle]))]\<rparr>)"
proof -
  have sw: "sent w1 = sent w"
    using handle_sent [of e "field ''action'' c" w] h by simp
  show ?thesis
    using assms(1,2)
  proof (cases rule: loop_body_call_cases [where e = e and w = w])
    case (dispatch_throws err w1')
    then show ?thesis using h by simp
  next
    case (settle_throws w1')
    then show ?thesis using h s by simp
  next
    case (screenshot_throws w1')
    then show ?thesis using h p by simp
  next
    case (reported w1' shot)
    then have "w1' = w1" using h by simp
    then show ?thesis using reported sw by simp
  qed
qed

lemma loop_body_acts:
  assumes c: "find_computer_call r = Inr c" "truthy c"
  shows "(\<forall>s. fst (loop_body e r w) \<noteq> Return s) \<and>
         (\<exists>more. calls (snd (loop_body e r w)) =
                   calls (snd (handleModelAction e (field ''action'' c) w)) @ more)"
  using c
proof (cases rule: loop_body_call_cases [where e = e and w = w])
  case (dispatch_throws err w1)
  then show ?thesis by simp
next
  case (settle_throws w1)
  then show ?thesis by simp
next
  case (screenshot_throws w1)
  then show ?thesis by simp
next
  case (reported w1 shot)
  then show ?thesis by (simp split: reply.splits)
qed

lemma loop_continues_after_absorbed:
  assumes c: "find_computer_call r = Inr c" "truthy c"
    and a: "absorbed e (field ''action'' c)"
    and s: "\<not> page_throws e (calls w) settle"
    and p: "\<not> page_throws e (calls w @ [settle]) (PageScreenshot True)"
  shows "calls (snd (loop_body e r w)) = calls w @ [settle, PageScreenshot True] \<and>
         sent (snd (loop_body e r w)) = sent w @ [report r c (screenshot_data e (calls w @ [settle]))] \<and>
         fst (loop_body e r w) =
           (case model_reply e (sent w @ [report r c (screenshot_data e (calls w @ [settle]))]) of
              TransportFailure \<Rightarrow> Throw TransportError
            | Reply r' \<Rightarrow> Next r')"
proof -
  obtain res w1 where h: "handleModelAction e (field ''action'' c) w = (res, w1)"
    by (cases "handleModelAction e (field ''action'' c) w") blast
  have res: "res = Inr ()" and w1: "calls w1 = calls w"
    using handle_absorbed [OF a, of w] h by simp_all
  have "loop_body e r w =
         (case model_reply e (sent w @ [report r c (screenshot_data e (calls w1 @ [settle]))]) of
            TransportFailure \<Rightarrow> Throw TransportError
          | Reply r' \<Rightarrow> Next r',
          w1\<lparr>calls := calls w1 @ [settle, PageScreenshot True],
             sent := sent w @ [report r c (screenshot_data e (calls w1 @ [settle]))]\<rparr>)"
    using c h res s p w1 by (intro loop_body_reported) simp_all
  then show ?thesis using w1 by simp
qed

text \<open>What one pass adds to the payloads sent.\<close>

lemma loop_body_sent:
  assumes c: "find_computer_call r = Inr c"
  shows "sent (snd (loop_body e r w)) = sent w \<or>
         (\<exists>shot. sent (snd (loop_body e r w)) = sent w @ [report r c shot])"
proof (cases "truthy c")
  case False
  then show ?thesis using c by (simp add: loop_body_no_call)
next
  case True
  with c show ?thesis
  proof (cases rule: loop_body_call_cases [where e = e and w = w])
    case (dispatch_throws err w1)
    then show ?thesis using handle_sent [of e "field ''action'' c" w] by simp
  next
    case (settle_throws w1)
    then show ?thesis using handle_sent [of e "field ''action'' c" w] by simp
  next
    case (screenshot_throws w1)
    then show ?thesis using handle_sent [of e "field ''action'' c" w] by simp
  next
    case (reported w1 shot)
    then show ?thesis using handle_sent [of e "field ''action'' c" w] by auto
  qed
qed

lemma loop_body_sent_tools:
  "\<exists>new. sent (snd (loop_body e r w)) = sent w @ new \<and> list_all (\<lambda>q. tools q = [computer_tool]) new"
proof (cases "find_computer_call r")
  case (Inl err)
  then show ?thesis by (simp add: loop_body_find_throws)
next
  case (Inr c)
  from loop_body_sent [OF Inr, of e w] show ?thesis
  proof
    assume "sent (snd (loop_body e r w)) = sent w"
    then show ?thesis by simp
  next
    assume "\<exists>shot. sent (snd (loop_body e r w)) = sent w @ [report r c shot]"
    then obtain shot where "sent (snd (loop_body e r w)) = sent w @ [report r c shot]" by blast
    moreover have "tools (report r c shot) = [computer_tool]"
      by (simp add: report_def screenshot_request_def)
    ultimately show ?thesis by simp
  qed
qed

text \<open>What one pass adds to the calls made: the calls of the dispatch, then at most the
  settle delay and one screenshot.\<close>

lemma loop_body_calls:
  "\<exists>new. calls (snd (loop_body e r w)) = calls w @ new \<and> BrowserClose \<notin> set new"
proof (cases "find_computer_call r")
  case (Inl err)
  then show ?thesis by (simp add: loop_body_find_throws)
next
  case (Inr c)
  obtain cs where cs: "calls (snd (handleModelAction e (field ''action'' c) w)) = calls w @ cs"
      "list_all dispatch_call cs"
    using handle_calls by blast
  have nc: "BrowserClose \<notin> set cs"
    using cs(2) by (auto simp add: list_all_iff)
  show ?thesis
  proof (cases "truthy c")
    case False
    then show ?thesis using Inr by (simp add: loop_body_no_call)
  next
    case True
    with Inr show ?thesis
    proof (cases rule: loop_body_call_cases [where e = e and w = w])
      case (dispatch_throws err w1)
      then show ?thesis using cs(1) nc by simp
    next
      case (settle_throws w1)
      then show ?thesis using cs(1) nc by (simp add: settle_def)
    next
      case (screenshot_throws w1)
      then show ?thesis using cs(1) nc by (simp add: settle_def)
    next
      case (reported w1 shot)
      then show ?thesis using cs(1) nc by (simp add: settle_def)
    qed
  qed
qed

section \<open>The loop and the session\<close>

lemma agent_loop_sent_tools:
  "\<exists>new. sent (snd (agent_loop e n r w)) = sent w @ new \<and> list_all (\<lambda>q. tools q = [computer_tool]) new"
proof (induction n arbitrary: r w)
  case 0
  show ?case by simp
next
  case (Suc n)
  obtain p w' where b: "loop_body e r w = (p, w')"
    by (cases "loop_body e r w") blast
  obtain new where new: "sent w' = sent w @ new" "list_all (\<lambda>q. tools q = [computer_tool]) new"
    using loop_body_sent_tools [of e r w] b by auto
  show ?case
  proof (cases p)
    case (Return s)
    then show ?thesis using b new by simp
  next
    case (Throw err)
    then show ?thesis using b new by simp
  next
    case (Next r')
    obtain more where "sent (snd (agent_loop e n r' w')) = sent w' @ more"
        "list_all (\<lambda>q. tools q = [computer_tool]) more"
      using Suc.IH by blast
    then show ?thesis using b new Next by simp
  qed
qed

lemma agent_loop_calls:
  "\<exists>new. calls (snd (agent_loop e n r w)) = calls w @ new \<and> BrowserClose \<notin> set new"
proof (induction n arbitrary: r w)
  case 0
  show ?case by simp
next
  case (Suc n)
  obtain p w' where b: "loop_body e r w = (p, w')"
    by (cases "loop_body e r w") blast
  obtain new where new: "calls w' = calls w @ new" "BrowserClose \<notin> set new"
    using loop_body_calls [of e r w] b by auto
  show ?case
  proof (cases p)
    case (Return s)
    then show ?thesis using b new by simp
  next
    case (Throw err)
    then show ?thesis using b new by simp
  next
    case (Next r')
    obtain more where "calls (snd (agent_loop e n r' w')) = calls w' @ more"
        "BrowserClose \<notin> set more"
      using Suc.IH by blast
    then show ?thesis using b new Next by simp
  qed
qed

text \<open>More passes never change an outcome already reached.\<close>

lemma agent_loop_more_fuel:
  "agent_loop e n r w = (Some out, w') \<Longrightarrow> agent_loop e (n + k) r w = (Some out, w')"
proof (induction n arbitrary: r w)
  case 0
  then show ?case by simp
next
  case (Suc n)
  obtain p w1 where b: "loop_body e r w = (p, w1)"
    by (cases "loop_body e r w") blast
  show ?case
  proof (cases p)
    case (Return s)
    then show ?thesis using Suc.prems b by simp
  next
    case (Throw err)
    then show ?thesis using Suc.prems b by simp
  next
    case (Next r')
    then show ?thesis using Suc.prems Suc.IH [of r' w1] b by simp
  qed
qed

lemma create_response_sent [simp]: "sent (snd (create_response e req w)) = sent w @ [req]"
  by (simp add: create_response_def split: reply.splits)

lemma create_response_calls [simp]: "calls (snd (create_response e req w)) = calls w"
  by (simp add: create_response_def split: reply.splits)

lemma launch_cases:
  obtains
    (launch_rejected) "launchSandboxedBrowser e w =
        (Inl (PlaywrightError chromium_launch), w\<lparr>calls := calls w @ [chromium_launch]\<rparr>)"
  | (page_rejected) "launchSandboxedBrowser e w =
        (Inl (PlaywrightError BrowserNewPage), w\<lparr>calls := calls w @ [chromium_launch, BrowserNewPage]\<rparr>)"
  | (viewport_rejected) "launchSandboxedBrowser e w =
        (Inl (PlaywrightError (SetViewportSize 1024 768)),
         w\<lparr>calls := calls w @ [chromium_launch, BrowserNewPage, SetViewportSize 1024 768]\<rparr>)"
  | (opened) "launchSandboxedBrowser e w =
        (Inr (), w\<lparr>calls := calls w @ [chromium_launch, BrowserNewPage, SetViewportSize 1024 768]\<rparr>)"
proof (cases "page_throws e (calls w) chromium_launch")
  case True
  then have "launchSandboxedBrowser e w =
      (Inl (PlaywrightError chromium_launch), w\<lparr>calls := calls w @ [chromium_launch]\<rparr>)"
    by (simp add: launchSandboxedBrowser_def pw_def)
  then show thesis by (rule launch_rejected)
next
  case l: False
  show thesis
  proof (cases "page_throws e (calls w @ [chromium_launch]) BrowserNewPage")
    case True
    then have "launchSandboxedBrowser e w =
        (Inl (PlaywrightError BrowserNewPage), w\<lparr>calls := calls w @ [chromium_launch, BrowserNewPage]\<rparr>)"
      using l by (simp add: launchSandboxedBrowser_def pw_def)
    then show thesis by (rule page_rejected)
  next
    case p: False
    show thesis
    proof (cases "page_throws e (calls w @ [chromium_launch, BrowserNewPage]) (SetViewportSize 1024 768)")
      case True
      then have "launchSandboxedBrowser e w =
          (Inl (PlaywrightError (SetViewportSize 1024 768)),
           w\<lparr>calls := calls w @ [chromium_launch, BrowserNewPage, SetViewportSize 1024 768]\<rparr>)"
        using l p by (simp add: launchSandboxedBrowser_def pw_def)
      then show thesis by (rule viewport_rejected)
    next
      case False
      then have "launchSandboxedBrowser e w =
          (Inr (), w\<lparr>calls := calls w @ [chromium_launch, BrowserNewPage, SetViewportSize 1024 768]\<rparr>)"
        using l p by (simp add: launchSandboxedBrowser_def pw_def)
      then show thesis by (rule opened)
    qed
  qed
qed

lemma launch_opened:
  "launchSandboxedBrowser e w = (Inr u, w0) \<Longrightarrow>
   w0 = w\<lparr>calls := calls w @ [chromium_launch, BrowserNewPage, SetViewportSize 1024 768]\<rparr>"
  by (cases rule: launch_cases [of e w]) simp_all

lemma launch_failed:
  "launchSandboxedBrowser e w = (Inl err, w0) \<Longrightarrow>
   sent w0 = sent w \<and> (\<exists>new. calls w0 = calls w @ new \<and> BrowserClose \<notin> set new)"
  by (cases rule: launch_cases [of e w]) (auto simp add: chromium_launch_def)

lemma session_body_sent:
  "\<exists>new. sent (snd (session_body e n prompt w)) = sent w @ new \<and>
         list_all (\<lambda>q. tools q = [computer_tool]) new"
proof (cases "create_response e (first_request prompt) w")
  case (Pair res w1)
  have w1: "sent w1 = sent w @ [first_request prompt]"
    using create_response_sent [of e "first_request prompt" w] Pair by simp
  have t: "tools (first_request prompt) = [computer_tool]"
    by (simp add: first_request_def)
  show ?thesis
  proof (cases res)
    case (Inl err)
    then show ?thesis using Pair w1 t by (simp add: session_body_def)
  next
    case (Inr r)
    obtain more where "sent (snd (agent_loop e n r w1)) = sent w1 @ more"
        "list_all (\<lambda>q. tools q = [computer_tool]) more"
      using agent_loop_sent_tools by blast
    then show ?thesis using Pair Inr w1 t by (simp add: session_body_def)
  qed
qed

lemma session_body_calls:
  "\<exists>new. calls (snd (session_body e n prompt w)) = calls w @ new \<and> BrowserClose \<notin> set new"
proof (cases "create_response e (first_request prompt) w")
  case (Pair res w1)
  have w1: "calls w1 = calls w"
    using create_response_calls [of e "first_request prompt" w] Pair by simp
  show ?thesis
  proof (cases res)
    case (Inl err)
    then show ?thesis using Pair w1 by (simp add: session_body_def)
  next
    case (Inr r)
    then show ?thesis using Pair w1 agent_loop_calls [of e n r w1] by (simp add: session_body_def)
  qed
qed

text \<open>The world a run ends in, by the way it went.\<close>

lemma run_cases:
  obtains
    (not_opened) err w0 where
      "launchSandboxedBrowser e start_world = (Inl err, w0)"
      "runComputerUseAgent e n prompt = (Some (Inl err), w0)"
  | (running) w0 w2 where
      "launchSandboxedBrowser e start_world = (Inr (), w0)"
      "session_body e n prompt w0 = (None, w2)"
      "runComputerUseAgent e n prompt = (None, w2)"
  | (finished) w0 w2 outcome where
      "launchSandboxedBrowser e start_world = (Inr (), w0)"
      "session_body e n prompt w0 = (Some outcome, w2)"
      "fst (runComputerUseAgent e n prompt) =
         Some (if page_throws e (calls w2) BrowserClose then Inl (PlaywrightError BrowserClose) else outcome)"
      "snd (runComputerUseAgent e n prompt) = w2\<lparr>calls := calls w2 @ [BrowserClose]\<rparr>"
proof (cases "launchSandboxedBrowser e start_world")
  case (Pair res w0)
  show thesis
  proof (cases res)
    case (Inl err)
    then show thesis using Pair not_opened by (simp add: runComputerUseAgent_def)
  next
    case (Inr u)
    then have l: "launchSandboxedBrowser e start_world = (Inr (), w0)"
      using Pair by simp
    obtain out w2 where b: "session_body e n prompt w0 = (out, w2)"
      by (cases "session_body e n prompt w0") blast
    show thesis
    proof (cases out)
      case None
      then show thesis using l b running by (simp add: runComputerUseAgent_def)
    next
      case (Some outcome)
      then have "fst (runComputerUseAgent e n prompt) =
           Some (if page_throws e (calls w2) BrowserClose then Inl (PlaywrightError BrowserClose) else outcome)"
        and "snd (runComputerUseAgent e n prompt) = w2\<lparr>calls := calls w2 @ [BrowserClose]\<rparr>"
        using l b by (simp_all add: runComputerUseAgent_def pw_def)
      then show thesis using l b Some finished by blast
    qed
  qed
qed

text \<open>Once the browser is open, a run that ends has closed it exactly once, as its last
  call.\<close>

lemma closed_once_when_opened:
  assumes "launchSandboxedBrowser e start_world = (Inr (), w0)"
    and "runComputerUseAgent e fuel prompt = (Some outcome, w)"
  shows "\<exists>before. calls w = before @ [BrowserClose] \<and> BrowserClose \<notin> set before"
proof (cases rule: run_cases [of e fuel prompt])
  case (not_opened err w0')
  then show ?thesis using assms(1) by simp
next
  case (running w0' w2)
  then show ?thesis using assms(2) by simp
next
  case (finished w0' w2 outcome')
  then have w0': "w0' = w0" using assms(1) by simp
  have c0: "calls w0 = [chromium_launch, BrowserNewPage, SetViewportSize 1024 768]"
    using launch_opened [OF assms(1)] by (simp add: start_world_def)
  obtain more where m: "calls w2 = calls w0 @ more" "BrowserClose \<notin> set more"
    using session_body_calls [of e fuel prompt w0] finished(2) w0' by auto
  have "calls w = calls w2 @ [BrowserClose]"
    using finished(4) assms(2) by simp
  moreover have "BrowserClose \<notin> set (calls w2)"
    using m c0 by (simp add: chromium_launch_def)
  ultimately show ?thesis by blast
qed

section \<open>What a run resolves to\<close>

lemma agent_loop_terminal:
  "list_all proper items \<Longrightarrow> \<not> list_ex is_call items \<Longrightarrow>
   agent_loop e (Suc n) (turn i items) w = (Some (Inr (resolved_text items)), w)"
  by (simp add: loop_body_terminal)





lemma agent_loop_holds_dispatch:
  assumes c: "find_computer_call r = Inr c" "truthy c"
  shows "\<exists>more. calls (snd (agent_loop e (Suc n) r w)) =
                  calls (snd (handleModelAction e (field ''action'' c) w)) @ more"
proof -
  obtain p w1 where b: "loop_body e r w = (p, w1)"
    by (cases "loop_body e r w") blast
  obtain more1 where m1: "calls w1 = calls (snd (handleModelAction e (field ''action'' c) w)) @ more1"
    using loop_body_acts [OF c, of e w] b by auto
  show ?thesis
  proof (cases p)
    case (Return s)
    then show ?thesis using loop_body_acts [OF c, of e w] b by simp
  next
    case (Throw err)
    then show ?thesis using b m1 by simp
  next
    case (Next r')
    obtain more2 where "calls (snd (agent_loop e n r' w1)) = calls w1 @ more2"
      using agent_loop_calls [of e n r' w1] by blast
    then show ?thesis using b Next m1 by simp
  qed
qed

lemma loop_goes_on_to_terminal:
  assumes c: "find_computer_call r = Inr c" "truthy c"
    and h: "handleModelAction e (field ''action'' c) w = (Inr (), w1)"
    and s: "\<not> page_throws e (calls w1) settle"
    and p: "\<not> page_throws e (calls w1 @ [settle]) (PageScreenshot True)"
    and m: "model_reply e (sent w @ [report r c (screenshot_data e (calls w1 @ [settle]))]) = Reply r'"
  shows "loop_body e r w =
           (Next r',
            w1\<lparr>calls := calls w1 @ [settle, PageScreenshot True],
               sent := sent w @ [report r c (screenshot_data e (calls w1 @ [settle]))]\<rparr>)"
    and "agent_loop e (Suc n) r w =
           agent_loop e n r'
             (w1\<lparr>calls := calls w1 @ [settle, PageScreenshot True],
                 sent := sent w @ [report r c (screenshot_data e (calls w1 @ [settle]))]\<rparr>)"
proof -
  show b: "loop_body e r w =
           (Next r',
            w1\<lparr>calls := calls w1 @ [settle, PageScreenshot True],
               sent := sent w @ [report r c (screenshot_data e (calls w1 @ [settle]))]\<rparr>)"
    using loop_body_reported [OF c h s p] m by simp
  show "agent_loop e (Suc n) r w =
           agent_loop e n r'
             (w1\<lparr>calls := calls w1 @ [settle, PageScreenshot True],
                 sent := sent w @ [report r c (screenshot_data e (calls w1 @ [settle]))]\<rparr>)"
    using b by simp
qed

lemma loop_goes_on_after_absorbed:
  assumes wf: "well_formed r" and cs: "computer_calls r = c # rest"
    and a: "absorbed e (field ''action'' c)"
    and s: "\<not> page_throws e (calls w) settle"
    and p: "\<not> page_throws e (calls w @ [settle]) (PageScreenshot True)"
    and m: "model_reply e (sent w @ [report r c (screenshot_data e (calls w @ [settle]))]) = Reply (turn i items)"
    and t: "list_all proper items" "\<not> list_ex is_call items"
  shows "fst (agent_loop e (Suc (Suc n)) r w) = Some (Inr (resolved_text items)) \<and>
         calls (snd (agent_loop e (Suc (Suc n)) r w)) = calls w @ [settle, PageScreenshot True] \<and>
         sent (snd (agent_loop e (Suc (Suc n)) r w)) =
           sent w @ [report r c (screenshot_data e (calls w @ [settle]))]"
proof -
  have c: "find_computer_call r = Inr c" "truthy c"
    using first_call_found wf cs by blast+
  obtain res w1 where h: "handleModelAction e (field ''action'' c) w = (res, w1)"
    by (cases "handleModelAction e (field ''action'' c) w") blast
  have res: "res = Inr ()" and w1: "calls w1 = calls w"
    using handle_absorbed [OF a, of w] h by simp_all
  have h': "handleModelAction e (field ''action'' c) w = (Inr (), w1)"
    using h res by simp
  have "agent_loop e (Suc (Suc n)) r w =
          agent_loop e (Suc n) (turn i items)
            (w1\<lparr>calls := calls w1 @ [settle, PageScreenshot True],
                sent := sent w @ [report r c (screenshot_data e (calls w1 @ [settle]))]\<rparr>)"
    using s p m w1 by (intro loop_goes_on_to_terminal(2) [OF c h']) simp_all
  also have "\<dots> =
          (Some (Inr (resolved_text items)),
           w1\<lparr>calls := calls w1 @ [settle, PageScreenshot True],
              sent := sent w @ [report r c (screenshot_data e (calls w1 @ [settle]))]\<rparr>)"
    using t by (rule agent_loop_terminal)
  finally show ?thesis
    using w1 by (simp del: agent_loop.simps)
qed

section \<open>The sample runs, evaluated\<close>

lemma quiet_env_simps [simp]:
  "page_throws (quiet_env rs) tr c = False"
  "screenshot_data (quiet_env rs) tr = ''iVBORw0KGgo=''"
  "model_reply (quiet_env rs) = scripted rs"
  by (simp_all add: quiet_env_def)

lemma rejecting_env_simps [simp]:
  "page_throws (rejecting_env bad rs) tr c = (c = bad)"
  "screenshot_data (rejecting_env bad rs) tr = ''iVBORw0KGgo=''"
  "model_reply (rejecting_env bad rs) = scripted rs"
  by (simp_all add: rejecting_env_def)

lemma start_world_simps [simp]:
  "calls start_world = []" "sent start_world = []" "console start_world = []"
  by (simp_all add: start_world_def)

lemma done_turn_well_formed: "well_formed done_turn"
  by (simp add: well_formed_def done_turn_def)

lemma done_turn_calls: "computer_calls done_turn = []"
  by (simp add: computer_calls_def output_items_def done_turn_def)

lemma done_turn_typed:
  "done_turn = turn (JStr ''resp_2'') [TextItem ''Done'', TextItem ''Task complete'']"
  by (simp add: done_turn_def turn_def)

lemma done_turn_pass:
  "loop_body e done_turn w = (Return (''Done'' @ [CHR 0x0A] @ ''Task complete''), w)"
  unfolding done_turn_typed
  by (subst loop_body_terminal) (simp_all add: resolved_text_def List.map_filter_simps)

lemma click_turn_call: "find_computer_call click_turn = Inr click_call"
  by (simp add: find_computer_call_def click_turn_def click_call_def)

lemma click_turn_well_formed: "well_formed click_turn"
  by (simp add: well_formed_def click_turn_def click_call_def)

lemma click_turn_calls: "computer_calls click_turn = [click_call]"
  by (simp add: computer_calls_def output_items_def click_turn_def click_call_def)

lemma click_action: "field ''action'' click_call = JObj [(''type'', JStr ''click''), (''x'', JNum 50), (''y'', JNum 50)]"
  by (simp add: click_call_def)

lemma click_handled:
  "handleModelAction (quiet_env rs) (field ''action'' click_call) start_world =
     (Inr (), start_world\<lparr>calls := [MouseClick (JNum 50) (JNum 50) (JStr ''left'')]\<rparr>)"
  by (simp add: click_action handle_click pw_def default_to_def)

lemma click_pass:
  "loop_body (quiet_env [done_turn]) click_turn start_world =
     (Next done_turn,
      start_world\<lparr>calls := [MouseClick (JNum 50) (JNum 50) (JStr ''left''), settle, PageScreenshot True],
                  sent := [report click_turn click_call ''iVBORw0KGgo='']\<rparr>)"
proof -
  have t: "truthy click_call" by (simp add: click_call_def)
  show ?thesis
    using loop_body_reported [OF click_turn_call t click_handled, of "[done_turn]"]
    by (simp add: scripted_def)
qed

lemma click_handled_anywhere:
  "handleModelAction (quiet_env rs) (field ''action'' click_call) w =
     (Inr (), w\<lparr>calls := calls w @ [MouseClick (JNum 50) (JNum 50) (JStr ''left'')]\<rparr>)"
  by (simp add: click_action handle_click pw_def default_to_def)

lemma click_pass_opened:
  "loop_body (quiet_env [click_turn, done_turn]) click_turn opened_world =
     (Next done_turn,
      opened_world\<lparr>calls := calls opened_world @
                     [MouseClick (JNum 50) (JNum 50) (JStr ''left''), settle, PageScreenshot True],
                   sent := [first_request ''task'', report click_turn click_call ''iVBORw0KGgo='']\<rparr>)"
proof -
  have t: "truthy click_call" by (simp add: click_call_def)
  show ?thesis
    using loop_body_reported [OF click_turn_call t click_handled_anywhere,
        of "[click_turn, done_turn]" opened_world]
    by (simp add: scripted_def opened_world_def)
qed

lemma scenario_run:
  "runComputerUseAgent (quiet_env [click_turn, done_turn]) 2 ''task'' =
     (Some (Inr (''Done'' @ [CHR 0x0A] @ ''Task complete'')),
      \<lparr>calls = [chromium_launch, BrowserNewPage, SetViewportSize 1024 768,
                MouseClick (JNum 50) (JNum 50) (JStr ''left''), settle, PageScreenshot True,
                BrowserClose],
       sent = [first_request ''task'', report click_turn click_call ''iVBORw0KGgo=''],
       console = []\<rparr>)"
proof -
  have l: "launchSandboxedBrowser (quiet_env [click_turn, done_turn]) start_world =
             (Inr (), start_world\<lparr>calls := [chromium_launch, BrowserNewPage, SetViewportSize 1024 768]\<rparr>)"
    by (simp add: launchSandboxedBrowser_def pw_def)
  have f: "create_response (quiet_env [click_turn, done_turn]) (first_request ''task'')
             (start_world\<lparr>calls := [chromium_launch, BrowserNewPage, SetViewportSize 1024 768]\<rparr>) =
             (Inr click_turn, opened_world)"
    by (simp add: create_response_def scripted_def opened_world_def start_world_def)
  have two: "(2::nat) = Suc (Suc 0)" by simp
  have b: "session_body (quiet_env [click_turn, done_turn]) 2 ''task''
             (start_world\<lparr>calls := [chromium_launch, BrowserNewPage, SetViewportSize 1024 768]\<rparr>) =
           (Some (Inr (''Done'' @ [CHR 0x0A] @ ''Task complete'')),
            opened_world\<lparr>calls := calls opened_world @
                     [MouseClick (JNum 50) (JNum 50) (JStr ''left''), settle, PageScreenshot True],
                   sent := [first_request ''task'', report click_turn click_call ''iVBORw0KGgo='']\<rparr>)"
    unfolding session_body_def two
    by (simp add: f click_pass_opened done_turn_pass)
  show ?thesis
    by (simp add: runComputerUseAgent_def l b pw_def opened_world_def)
qed



text \<open>A run on a quiet page: launch, first request, the passes, close.\<close>

lemma quiet_run:
  "runComputerUseAgent (quiet_env (r # rs)) n prompt =
     (case agent_loop (quiet_env (r # rs)) n r
             \<lparr>calls = [chromium_launch, BrowserNewPage, SetViewportSize 1024 768],
              sent = [first_request prompt], console = []\<rparr> of
        (None, w) \<Rightarrow> (None, w)
      | (Some outcome, w) \<Rightarrow> (Some outcome, w\<lparr>calls := calls w @ [BrowserClose]\<rparr>))"
proof -
  have l: "launchSandboxedBrowser (quiet_env (r # rs)) start_world =
             (Inr (), start_world\<lparr>calls := [chromium_launch, BrowserNewPage, SetViewportSize 1024 768]\<rparr>)"
    by (simp add: launchSandboxedBrowser_def pw_def)
  have f: "create_response (quiet_env (r # rs)) (first_request prompt)
             (start_world\<lparr>calls := [chromium_launch, BrowserNewPage, SetViewportSize 1024 768]\<rparr>) =
             (Inr r, \<lparr>calls = [chromium_launch, BrowserNewPage, SetViewportSize 1024 768],
                      sent = [first_request prompt], console = []\<rparr>)"
    by (simp add: create_response_def scripted_def start_world_def)
  show ?thesis
    by (simp add: runComputerUseAgent_def l session_body_def f pw_def split: prod.splits option.splits)
qed

lemma drag_turn_facts:
  "well_formed drag_turn" "computer_calls drag_turn = [drag_call]"
  "field ''action'' drag_call = drag_action"
  by (simp_all add: well_formed_def computer_calls_def output_items_def drag_turn_def drag_call_def
        drag_action_def)

lemma drag_absorbed: "absorbed e drag_action"
  by (simp add: absorbed_def convertible_def recognised_def drag_action_def)

section \<open>The claims\<close>




text \<open>Claim C2.  The claim asks for exactly one \<^verbatim>\<open>browser.close()\<close> on every exit path
  and for no launched browser left behind when opening the session fails partway.  The
  source launches the browser before its \<^verbatim>\<open>try\<close>: when \<^verbatim>\<open>chromium.launch\<close> succeeds and
  \<^verbatim>\<open>browser.newPage\<close> rejects, the run rejects with that error after two calls, and
  \<^verbatim>\<open>close\<close> is not among them.  (Once the browser is open, \<open>closed_once_when_opened\<close> above
  shows the single, final \<^verbatim>\<open>close\<close>.)\<close>

theorem browser_left_open_when_page_creation_fails:
  "fst (runComputerUseAgent (rejecting_env BrowserNewPage []) 3 ''task'') =
     Some (Inl (PlaywrightError BrowserNewPage)) \<and>
   calls (snd (runComputerUseAgent (rejecting_env BrowserNewPage []) 3 ''task'')) =
     [chromium_launch, BrowserNewPage] \<and>
   BrowserClose \<notin> set (calls (snd (runComputerUseAgent (rejecting_env BrowserNewPage []) 3 ''task'')))"
  by (simp add: runComputerUseAgent_def launchSandboxedBrowser_def pw_def chromium_launch_def)

text \<open>Claim C3.  In every pass that sends a payload, the payload is the only one sent in
  that pass and its \<^verbatim>\<open>acknowledged_safety_checks\<close> is the value of
  \<^verbatim>\<open>pending_safety_checks\<close> of the computer call just handled, as it stands; when the call
  carries none (absent or \<^verbatim>\<open>null\<close>), the empty list is sent.\<close>

theorem safety_checks_echoed:
  assumes c: "find_computer_call r = Inr c"
    and grew: "sent (snd (loop_body e r w)) \<noteq> sent w"
  shows "\<exists>req ack image.
           sent (snd (loop_body e r w)) = sent w @ [req] \<and>
           input req = [ComputerCallOutput (field ''call_id'' c) ack image] \<and>
           (nullish (field ''pending_safety_checks'' c) \<longrightarrow> ack = JArr []) \<and>
           (\<not> nullish (field ''pending_safety_checks'' c) \<longrightarrow> ack = field ''pending_safety_checks'' c)"
proof -
  obtain shot where s: "sent (snd (loop_body e r w)) = sent w @ [report r c shot]"
    using loop_body_sent [OF c, of e w] grew by blast
  have "input (report r c shot) =
          [ComputerCallOutput (field ''call_id'' c)
             (coalesce (field ''pending_safety_checks'' c) (JArr []))
             (''data:image/png;base64,'' @ shot)]"
    by (simp add: report_def screenshot_request_def)
  then show ?thesis
    using s by (auto simp add: coalesce_def)
qed

text \<open>The click turn carries one pending safety check; it comes back on the next
  payload.\<close>

theorem safety_checks_echoed_witness:
  "find_computer_call click_turn = Inr click_call \<and>
   sent (snd (loop_body (quiet_env [done_turn]) click_turn start_world)) \<noteq> sent start_world \<and>
   map input (sent (snd (loop_body (quiet_env [done_turn]) click_turn start_world))) =
     [[ComputerCallOutput (JStr ''call_1'') (JArr [JObj [(''id'', JStr ''sc_1'')]])
         ''data:image/png;base64,iVBORw0KGgo='']]"
proof -
  have grew: "sent (snd (loop_body (quiet_env [done_turn]) click_turn start_world)) \<noteq> sent start_world"
    by (simp add: click_pass)
  show ?thesis
    using safety_checks_echoed [OF click_turn_call grew] click_turn_call grew
    by (simp add: click_pass report_def screenshot_request_def click_call_def coalesce_def)
qed

text \<open>Claim C4, as stated for every action value, fails on the values the service's types
  exclude: on \<^verbatim>\<open>null\<close> the first read of \<^verbatim>\<open>action.type\<close> throws, and a kind that is an
  object with a \<^verbatim>\<open>toString\<close> entry of its own cannot be printed into the warning of the
  default case; both end the run with a \<^verbatim>\<open>TypeError\<close>.\<close>

theorem null_action_and_odd_kind_end_the_run:
  "handleModelAction (quiet_env []) JNull start_world = (Inl TypeError, start_world) \<and>
   \<not> recognised (field ''type'' odd_kind_action) \<and>
   handleModelAction (quiet_env []) odd_kind_action start_world = (Inl TypeError, start_world) \<and>
   fst (runComputerUseAgent (quiet_env [odd_kind_turn, done_turn]) 2 ''task'') = Some (Inl TypeError) \<and>
   fst (runComputerUseAgent (quiet_env [actionless_turn, done_turn]) 2 ''task'') = Some (Inl TypeError)"
proof -
  have two: "(2::nat) = Suc (Suc 0)" by simp
  have a: "handleModelAction (quiet_env []) JNull start_world = (Inl TypeError, start_world)"
    by (simp add: handleModelAction_def)
  have u: "\<not> recognised (field ''type'' odd_kind_action)"
    by (simp add: recognised_def odd_kind_action_def)
  have o: "handleModelAction e odd_kind_action w = (Inl TypeError, w)" for e w
    using u by (simp add: handle_unrecognised odd_kind_action_def)
  have "loop_body e odd_kind_turn w = (Throw TypeError, w)" for e w
    using o [of e w] by (simp add: loop_body_def find_computer_call_def odd_kind_turn_def)
  then have r1: "fst (runComputerUseAgent (quiet_env [odd_kind_turn, done_turn]) 2 ''task'') =
      Some (Inl TypeError)"
    unfolding two by (simp add: quiet_run)
  have "loop_body e actionless_turn w = (Throw TypeError, w)" for e w
    by (simp add: loop_body_def find_computer_call_def actionless_turn_def handleModelAction_def)
  then have r2: "fst (runComputerUseAgent (quiet_env [actionless_turn, done_turn]) 2 ''task'') =
      Some (Inl TypeError)"
    unfolding two by (simp add: quiet_run)
  show ?thesis using a u o r1 r2 by simp
qed

text \<open>Claim C4, amended.  For an action that is not nullish, of an unrecognised kind that
  has a string form (every string, number or boolean, or no kind at all),
  \<open>handleModelAction\<close> returns normally, makes no Playwright call and writes the warning with
  that string; for a navigation whose \<^verbatim>\<open>url\<close> is empty, missing or not a string it returns
  normally, makes no call and writes the missing-URL warning.  A navigation never makes
  \<open>handleModelAction\<close> throw: a rejected \<^verbatim>\<open>page.goto\<close> is caught and written to the console.
  After such an action the run goes on: provided the page accepts the two calls, the pass
  waits the settle delay, takes the screenshot and sends the next payload, hands over the
  reply (or throws the transport failure of that request), and when the reply is a final
  turn the loop resolves to its text with exactly these calls and this payload made.\<close>

theorem absorbed_actions_never_end_the_run:
  "(\<not> nullish a \<and> \<not> recognised (field ''type'' a) \<and> to_string e (field ''type'' a) = Inr kind \<longrightarrow>
      handleModelAction e a w = (Inr (), w\<lparr>console := console w @ [WarnUnrecognized kind]\<rparr>)) \<and>
   (navigates (field ''type'' a) \<and>
    (\<not> truthy (field ''url'' a) \<or> typeof_js (field ''url'' a) \<noteq> ''string'') \<longrightarrow>
      handleModelAction e a w = (Inr (), w\<lparr>console := console w @ [WarnMissingUrl a]\<rparr>)) \<and>
   (navigates (field ''type'' a) \<longrightarrow> fst (handleModelAction e a w) = Inr ()) \<and>
   (navigates (field ''type'' a) \<and> truthy (field ''url'' a) \<and> typeof_js (field ''url'' a) = ''string'' \<and>
    page_throws e (calls w) (Goto (field ''url'' a) (default_to (field ''wait_until'' a) (JStr ''load''))) \<longrightarrow>
      console (snd (handleModelAction e a w)) =
        console w @
          [ErrorNavigate (field ''url'' a)
             (PlaywrightError (Goto (field ''url'' a) (default_to (field ''wait_until'' a) (JStr ''load''))))]) \<and>
   (well_formed r \<and> computer_calls r = c # rest \<and> field ''action'' c = a \<and> absorbed e a \<and>
    \<not> page_throws e (calls w) settle \<and> \<not> page_throws e (calls w @ [settle]) (PageScreenshot True) \<longrightarrow>
      calls (snd (loop_body e r w)) = calls w @ [settle, PageScreenshot True] \<and>
      sent (snd (loop_body e r w)) = sent w @ [report r c (screenshot_data e (calls w @ [settle]))] \<and>
      fst (loop_body e r w) =
        (case model_reply e (sent w @ [report r c (screenshot_data e (calls w @ [settle]))]) of
           TransportFailure \<Rightarrow> Throw TransportError
         | Reply r' \<Rightarrow> Next r') \<and>
      (model_reply e (sent w @ [report r c (screenshot_data e (calls w @ [settle]))]) = Reply (turn i items) \<and>
       list_all proper items \<and> \<not> list_ex is_call items \<longrightarrow>
         fst (agent_loop e (Suc (Suc n)) r w) = Some (Inr (resolved_text items)) \<and>
         calls (snd (agent_loop e (Suc (Suc n)) r w)) = calls w @ [settle, PageScreenshot True] \<and>
         sent (snd (agent_loop e (Suc (Suc n)) r w)) =
           sent w @ [report r c (screenshot_data e (calls w @ [settle]))]))"
proof -
  have 1: "\<not> nullish a \<and> \<not> recognised (field ''type'' a) \<and> to_string e (field ''type'' a) = Inr kind \<longrightarrow>
      handleModelAction e a w = (Inr (), w\<lparr>console := console w @ [WarnUnrecognized kind]\<rparr>)"
    using handle_unrecognised_kind by blast
  have 2: "navigates (field ''type'' a) \<and>
    (\<not> truthy (field ''url'' a) \<or> typeof_js (field ''url'' a) \<noteq> ''string'') \<longrightarrow>
      handleModelAction e a w = (Inr (), w\<lparr>console := console w @ [WarnMissingUrl a]\<rparr>)"
    using handle_bad_url [of a e w] by (simp add: warn_def)
  have 3: "navigates (field ''type'' a) \<longrightarrow> fst (handleModelAction e a w) = Inr ()"
    using handle_navigation_failure by blast
  have 4: "navigates (field ''type'' a) \<and> truthy (field ''url'' a) \<and> typeof_js (field ''url'' a) = ''string'' \<and>
    page_throws e (calls w) (Goto (field ''url'' a) (default_to (field ''wait_until'' a) (JStr ''load''))) \<longrightarrow>
      console (snd (handleModelAction e a w)) =
        console w @
          [ErrorNavigate (field ''url'' a)
             (PlaywrightError (Goto (field ''url'' a) (default_to (field ''wait_until'' a) (JStr ''load''))))]"
    by (simp add: handle_goto_rejected warn_def)
  have 5: "calls (snd (loop_body e r w)) = calls w @ [settle, PageScreenshot True] \<and>
      sent (snd (loop_body e r w)) = sent w @ [report r c (screenshot_data e (calls w @ [settle]))] \<and>
      fst (loop_body e r w) =
        (case model_reply e (sent w @ [report r c (screenshot_data e (calls w @ [settle]))]) of
           TransportFailure \<Rightarrow> Throw TransportError
         | Reply r' \<Rightarrow> Next r') \<and>
      (model_reply e (sent w @ [report r c (screenshot_data e (calls w @ [settle]))]) = Reply (turn i items) \<and>
       list_all proper items \<and> \<not> list_ex is_call items \<longrightarrow>
         fst (agent_loop e (Suc (Suc n)) r w) = Some (Inr (resolved_text items)) \<and>
         calls (snd (agent_loop e (Suc (Suc n)) r w)) = calls w @ [settle, PageScreenshot True] \<and>
         sent (snd (agent_loop e (Suc (Suc n)) r w)) =
           sent w @ [report r c (screenshot_data e (calls w @ [settle]))])"
    if wf: "well_formed r" and cs: "computer_calls r = c # rest" and ac: "field ''action'' c = a"
      and ab: "absorbed e a"
      and s: "\<not> page_throws e (calls w) settle"
      and p: "\<not> page_throws e (calls w @ [settle]) (PageScreenshot True)"
  proof -
    have c: "find_computer_call r = Inr c" "truthy c"
      using first_call_found wf cs by blast+
    have ab': "absorbed e (field ''action'' c)"
      using ab ac by simp
    note pass = loop_continues_after_absorbed [OF c ab' s p]
    have "fst (agent_loop e (Suc (Suc n)) r w) = Some (Inr (resolved_text items)) \<and>
         calls (snd (agent_loop e (Suc (Suc n)) r w)) = calls w @ [settle, PageScreenshot True] \<and>
         sent (snd (agent_loop e (Suc (Suc n)) r w)) =
           sent w @ [report r c (screenshot_data e (calls w @ [settle]))]"
      if "model_reply e (sent w @ [report r c (screenshot_data e (calls w @ [settle]))]) = Reply (turn i items)"
        and "list_all proper items" and "\<not> list_ex is_call items"
      using loop_goes_on_after_absorbed [OF wf cs ab' s p that] .
    then show ?thesis using pass by blast
  qed
  show ?thesis
  proof (intro conjI)
    show "well_formed r \<and> computer_calls r = c # rest \<and> field ''action'' c = a \<and> absorbed e a \<and>
      \<not> page_throws e (calls w) settle \<and> \<not> page_throws e (calls w @ [settle]) (PageScreenshot True) \<longrightarrow>
      calls (snd (loop_body e r w)) = calls w @ [settle, PageScreenshot True] \<and>
      sent (snd (loop_body e r w)) = sent w @ [report r c (screenshot_data e (calls w @ [settle]))] \<and>
      fst (loop_body e r w) =
        (case model_reply e (sent w @ [report r c (screenshot_data e (calls w @ [settle]))]) of
           TransportFailure \<Rightarrow> Throw TransportError
         | Reply r' \<Rightarrow> Next r') \<and>
      (model_reply e (sent w @ [report r c (screenshot_data e (calls w @ [settle]))]) = Reply (turn i items) \<and>
       list_all proper items \<and> \<not> list_ex is_call items \<longrightarrow>
         fst (agent_loop e (Suc (Suc n)) r w) = Some (Inr (resolved_text items)) \<and>
         calls (snd (agent_loop e (Suc (Suc n)) r w)) = calls w @ [settle, PageScreenshot True] \<and>
         sent (snd (agent_loop e (Suc (Suc n)) r w)) =
           sent w @ [report r c (screenshot_data e (calls w @ [settle]))])"
    proof (intro impI, elim conjE)
      assume "well_formed r" "computer_calls r = c # rest" "field ''action'' c = a" "absorbed e a"
        "\<not> page_throws e (calls w) settle" "\<not> page_throws e (calls w @ [settle]) (PageScreenshot True)"
      then show "calls (snd (loop_body e r w)) = calls w @ [settle, PageScreenshot True] \<and>
        sent (snd (loop_body e r w)) = sent w @ [report r c (screenshot_data e (calls w @ [settle]))] \<and>
        fst (loop_body e r w) =
          (case model_reply e (sent w @ [report r c (screenshot_data e (calls w @ [settle]))]) of
             TransportFailure \<Rightarrow> Throw TransportError
           | Reply r' \<Rightarrow> Next r') \<and>
        (model_reply e (sent w @ [report r c (screenshot_data e (calls w @ [settle]))]) = Reply (turn i items) \<and>
         list_all proper items \<and> \<not> list_ex is_call items \<longrightarrow>
           fst (agent_loop e (Suc (Suc n)) r w) = Some (Inr (resolved_text items)) \<and>
           calls (snd (agent_loop e (Suc (Suc n)) r w)) = calls w @ [settle, PageScreenshot True] \<and>
           sent (snd (agent_loop e (Suc (Suc n)) r w)) =
             sent w @ [report r c (screenshot_data e (calls w @ [settle]))])"
        by (rule 5)
    qed
  qed (rule 1 2 3 4)+
qed

text \<open>The unknown kind \<^verbatim>\<open>drag\<close>, a navigation with a number for \<^verbatim>\<open>url\<close>, a \<^verbatim>\<open>goto\<close> that
  the page rejects, and the loop after the \<^verbatim>\<open>drag\<close>.\<close>

theorem absorbed_actions_never_end_the_run_witness:
  "absorbed (quiet_env [done_turn]) drag_action \<and>
   handleModelAction (quiet_env [done_turn]) drag_action start_world =
     (Inr (), start_world\<lparr>console := [WarnUnrecognized ''drag'']\<rparr>) \<and>
   handleModelAction (quiet_env []) urlless_action start_world =
     (Inr (), start_world\<lparr>console := [WarnMissingUrl urlless_action]\<rparr>) \<and>
   console (snd (handleModelAction (rejecting_env (Goto (JStr ''https://example.com'') (JStr ''load'')) [])
                   goto_action start_world)) =
     [ErrorNavigate (JStr ''https://example.com'')
        (PlaywrightError (Goto (JStr ''https://example.com'') (JStr ''load'')))] \<and>
   fst (agent_loop (quiet_env [done_turn]) 2 drag_turn start_world) =
     Some (Inr (''Done'' @ [CHR 0x0A] @ ''Task complete'')) \<and>
   calls (snd (agent_loop (quiet_env [done_turn]) 2 drag_turn start_world)) =
     [settle, PageScreenshot True] \<and>
   sent (snd (agent_loop (quiet_env [done_turn]) 2 drag_turn start_world)) =
     [report drag_turn drag_call ''iVBORw0KGgo='']"
proof -
  have two: "(2::nat) = Suc (Suc 0)" by simp
  have k: "\<not> nullish drag_action \<and> \<not> recognised (field ''type'' drag_action) \<and>
      to_string (quiet_env [done_turn]) (field ''type'' drag_action) = Inr ''drag''"
    by (simp add: recognised_def drag_action_def)
  note d = absorbed_actions_never_end_the_run
      [where a = drag_action and e = "quiet_env [done_turn]" and w = start_world and kind = "''drag''"
         and r = drag_turn and c = drag_call and rest = "[]" and i = "JStr ''resp_2''"
         and items = "[TextItem ''Done'', TextItem ''Task complete'']" and n = 0]
  have h: "handleModelAction (quiet_env [done_turn]) drag_action start_world =
     (Inr (), start_world\<lparr>console := [WarnUnrecognized ''drag'']\<rparr>)"
    using d [THEN conjunct1] k by simp
  have u: "navigates (field ''type'' urlless_action) \<and>
      (\<not> truthy (field ''url'' urlless_action) \<or> typeof_js (field ''url'' urlless_action) \<noteq> ''string'')"
    by (simp add: navigates_def urlless_action_def)
  have hu: "handleModelAction (quiet_env []) urlless_action start_world =
     (Inr (), start_world\<lparr>console := [WarnMissingUrl urlless_action]\<rparr>)"
    using absorbed_actions_never_end_the_run
        [where a = urlless_action and e = "quiet_env []" and w = start_world,
         THEN conjunct2, THEN conjunct1] u
    by simp
  have g: "navigates (field ''type'' goto_action) \<and> truthy (field ''url'' goto_action) \<and>
      typeof_js (field ''url'' goto_action) = ''string'' \<and>
      field ''url'' goto_action = JStr ''https://example.com'' \<and>
      default_to (field ''wait_until'' goto_action) (JStr ''load'') = JStr ''load''"
    by (simp add: navigates_def goto_action_def default_to_def)
  have hg: "console (snd (handleModelAction (rejecting_env (Goto (JStr ''https://example.com'') (JStr ''load'')) [])
                   goto_action start_world)) =
     [ErrorNavigate (JStr ''https://example.com'')
        (PlaywrightError (Goto (JStr ''https://example.com'') (JStr ''load'')))]"
    using absorbed_actions_never_end_the_run
        [where a = goto_action
           and e = "rejecting_env (Goto (JStr ''https://example.com'') (JStr ''load'')) []"
           and w = start_world,
         THEN conjunct2, THEN conjunct2, THEN conjunct2, THEN conjunct1] g
    by simp
  have m: "model_reply (quiet_env [done_turn])
             (sent start_world @
              [report drag_turn drag_call (screenshot_data (quiet_env [done_turn]) (calls start_world @ [settle]))]) =
           Reply (turn (JStr ''resp_2'') [TextItem ''Done'', TextItem ''Task complete''])"
    by (simp add: scripted_def done_turn_typed)
  have l: "fst (agent_loop (quiet_env [done_turn]) 2 drag_turn start_world) =
       Some (Inr (''Done'' @ [CHR 0x0A] @ ''Task complete'')) \<and>
     calls (snd (agent_loop (quiet_env [done_turn]) 2 drag_turn start_world)) =
       [settle, PageScreenshot True] \<and>
     sent (snd (agent_loop (quiet_env [done_turn]) 2 drag_turn start_world)) =
       [report drag_turn drag_call ''iVBORw0KGgo='']"
    unfolding two
    using d [THEN conjunct2, THEN conjunct2, THEN conjunct2, THEN conjunct2] drag_turn_facts
      drag_absorbed [of "quiet_env [done_turn]"] m
    by (simp add: resolved_text_def List.map_filter_simps del: agent_loop.simps)
  show ?thesis
    using drag_absorbed h hu hg l by simp
qed

text \<open>Claim C5, as stated, fails for the \<^verbatim>\<open>screenshot\<close> variant of the vocabulary: the
  specification attaches no operation to it and its dispatch leaves the world untouched.\<close>

theorem screenshot_invokes_no_primitive:
  "matching_primitive screenshot_action = None \<and>
   handleModelAction (quiet_env []) screenshot_action start_world = (Inr (), start_world)"
  by (simp add: matching_primitive_def screenshot_action_def handle_screenshot)

text \<open>Claim C5, amended.  For every action to which the specification attaches an
  operation (click, double click, scroll, type, key presses, wait, navigate; valid
  parameters), the dispatch makes calls of that one operation only, in order, and, when the
  page accepts them, exactly the calls of that operation, once, and returns normally.\<close>

theorem dispatch_one_primitive:
  "matching_primitive a = Some p \<Longrightarrow>
     (\<exists>n. calls (snd (handleModelAction e a w)) = calls w @ take n (primitive_calls p)) \<and>
     (accepted e (calls w) (primitive_calls p) \<longrightarrow>
        handleModelAction e a w = (Inr (), w\<lparr>calls := calls w @ primitive_calls p\<rparr>))"
  using dispatch_accepted dispatch_within_primitive by blast

text \<open>A scroll: one pointer move, then one \<^verbatim>\<open>scrollBy\<close>.\<close>

theorem dispatch_one_primitive_witness:
  "matching_primitive scroll_action = Some (Scroll (JNum 10) (JNum 20) (JNum 0) (JNum 300)) \<and>
   accepted (quiet_env []) (calls start_world) (primitive_calls (Scroll (JNum 10) (JNum 20) (JNum 0) (JNum 300))) \<and>
   handleModelAction (quiet_env []) scroll_action start_world =
     (Inr (), start_world\<lparr>calls := [MouseMove (JNum 10) (JNum 20), EvaluateScrollBy (JNum 0) (JNum 300)]\<rparr>)"
proof -
  have m: "matching_primitive scroll_action = Some (Scroll (JNum 10) (JNum 20) (JNum 0) (JNum 300))"
    by (simp add: matching_primitive_def scroll_action_def)
  have acc: "accepted (quiet_env []) (calls start_world)
               (primitive_calls (Scroll (JNum 10) (JNum 20) (JNum 0) (JNum 300)))"
    by simp
  show ?thesis
    using dispatch_one_primitive [OF m, of "quiet_env []" start_world] m acc by simp
qed

text \<open>Claim C6.  Whenever a response holds a computer call, whatever text it holds
  besides, the pass does not return and the loop does not resolve at that response.  When
  the response is one the service delivers (an \<^verbatim>\<open>output\<close> array without \<^verbatim>\<open>null\<close> entries),
  the pass, and with it the loop, starts by dispatching the action of the first computer
  call; when the dispatch, the settle delay, the screenshot and the request succeed, the
  pass hands the reply to the next pass, and when that reply is a final turn the loop
  resolves to the text of the reply, not to the text that came with the action.\<close>

theorem action_takes_precedence:
  assumes "computer_calls r = c # rest"
  shows "(\<forall>s. fst (loop_body e r w) \<noteq> Return s) \<and>
         (\<forall>s. fst (agent_loop e (Suc 0) r w) \<noteq> Some (Inr s)) \<and>
         (well_formed r \<longrightarrow>
            (\<exists>more. calls (snd (loop_body e r w)) =
                      calls (snd (handleModelAction e (field ''action'' c) w)) @ more) \<and>
            (\<exists>more. calls (snd (agent_loop e (Suc n) r w)) =
                      calls (snd (handleModelAction e (field ''action'' c) w)) @ more) \<and>
            (\<forall>w1 r'.
               handleModelAction e (field ''action'' c) w = (Inr (), w1) \<and>
               \<not> page_throws e (calls w1) settle \<and>
               \<not> page_throws e (calls w1 @ [settle]) (PageScreenshot True) \<and>
               model_reply e (sent w @ [report r c (screenshot_data e (calls w1 @ [settle]))]) = Reply r' \<longrightarrow>
               loop_body e r w =
                 (Next r',
                  w1\<lparr>calls := calls w1 @ [settle, PageScreenshot True],
                     sent := sent w @ [report r c (screenshot_data e (calls w1 @ [settle]))]\<rparr>) \<and>
               agent_loop e (Suc n) r w =
                 agent_loop e n r'
                   (w1\<lparr>calls := calls w1 @ [settle, PageScreenshot True],
                       sent := sent w @ [report r c (screenshot_data e (calls w1 @ [settle]))]\<rparr>) \<and>
               (\<forall>i items.
                  r' = turn i items \<and> list_all proper items \<and> \<not> list_ex is_call items \<longrightarrow>
                  agent_loop e (Suc (Suc n)) r w =
                    (Some (Inr (resolved_text items)),
                     w1\<lparr>calls := calls w1 @ [settle, PageScreenshot True],
                        sent := sent w @ [report r c (screenshot_data e (calls w1 @ [settle]))]\<rparr>))))"
proof -
  have 1: "\<forall>s. fst (loop_body e r w) \<noteq> Return s"
    using loop_body_Return [of e r w] assms by auto
  have 0: "\<forall>s. fst (agent_loop e (Suc 0) r w) \<noteq> Some (Inr s)"
  proof
    fix s
    obtain p w1 where b: "loop_body e r w = (p, w1)"
      by (cases "loop_body e r w") blast
    show "fst (agent_loop e (Suc 0) r w) \<noteq> Some (Inr s)"
      using 1 b by (cases p) simp_all
  qed
  have rest: "(\<exists>more. calls (snd (loop_body e r w)) =
                      calls (snd (handleModelAction e (field ''action'' c) w)) @ more) \<and>
            (\<exists>more. calls (snd (agent_loop e (Suc n) r w)) =
                      calls (snd (handleModelAction e (field ''action'' c) w)) @ more) \<and>
            (\<forall>w1 r'.
               handleModelAction e (field ''action'' c) w = (Inr (), w1) \<and>
               \<not> page_throws e (calls w1) settle \<and>
               \<not> page_throws e (calls w1 @ [settle]) (PageScreenshot True) \<and>
               model_reply e (sent w @ [report r c (screenshot_data e (calls w1 @ [settle]))]) = Reply r' \<longrightarrow>
               loop_body e r w =
                 (Next r',
                  w1\<lparr>calls := calls w1 @ [settle, PageScreenshot True],
                     sent := sent w @ [report r c (screenshot_data e (calls w1 @ [settle]))]\<rparr>) \<and>
               agent_loop e (Suc n) r w =
                 agent_loop e n r'
                   (w1\<lparr>calls := calls w1 @ [settle, PageScreenshot True],
                       sent := sent w @ [report r c (screenshot_data e (calls w1 @ [settle]))]\<rparr>) \<and>
               (\<forall>i items.
                  r' = turn i items \<and> list_all proper items \<and> \<not> list_ex is_call items \<longrightarrow>
                  agent_loop e (Suc (Suc n)) r w =
                    (Some (Inr (resolved_text items)),
                     w1\<lparr>calls := calls w1 @ [settle, PageScreenshot True],
                        sent := sent w @ [report r c (screenshot_data e (calls w1 @ [settle]))]\<rparr>)))"
    if wf: "well_formed r"
  proof -
    have c: "find_computer_call r = Inr c" "truthy c"
      using first_call_found wf assms by blast+
    have 2: "\<exists>more. calls (snd (loop_body e r w)) =
                   calls (snd (handleModelAction e (field ''action'' c) w)) @ more"
      using loop_body_acts [OF c, of e w] by simp
    have 3: "\<exists>more. calls (snd (agent_loop e (Suc n) r w)) =
                   calls (snd (handleModelAction e (field ''action'' c) w)) @ more"
      using agent_loop_holds_dispatch [OF c] .
    have 4: "loop_body e r w =
                (Next r',
                 w1\<lparr>calls := calls w1 @ [settle, PageScreenshot True],
                    sent := sent w @ [report r c (screenshot_data e (calls w1 @ [settle]))]\<rparr>) \<and>
              agent_loop e (Suc n) r w =
                agent_loop e n r'
                  (w1\<lparr>calls := calls w1 @ [settle, PageScreenshot True],
                      sent := sent w @ [report r c (screenshot_data e (calls w1 @ [settle]))]\<rparr>) \<and>
              (\<forall>i items.
                 r' = turn i items \<and> list_all proper items \<and> \<not> list_ex is_call items \<longrightarrow>
                 agent_loop e (Suc (Suc n)) r w =
                   (Some (Inr (resolved_text items)),
                    w1\<lparr>calls := calls w1 @ [settle, PageScreenshot True],
                       sent := sent w @ [report r c (screenshot_data e (calls w1 @ [settle]))]\<rparr>))"
      if h: "handleModelAction e (field ''action'' c) w = (Inr (), w1)"
        and s: "\<not> page_throws e (calls w1) settle"
        and p: "\<not> page_throws e (calls w1 @ [settle]) (PageScreenshot True)"
        and m: "model_reply e (sent w @ [report r c (screenshot_data e (calls w1 @ [settle]))]) = Reply r'"
      for w1 r'
    proof -
      note go = loop_goes_on_to_terminal [OF c h s p m]
      have "agent_loop e (Suc (Suc n)) r w =
                   (Some (Inr (resolved_text items)),
                    w1\<lparr>calls := calls w1 @ [settle, PageScreenshot True],
                       sent := sent w @ [report r c (screenshot_data e (calls w1 @ [settle]))]\<rparr>)"
        if "r' = turn i items" "list_all proper items" "\<not> list_ex is_call items" for i items
        using go(2) [of "Suc n"] that agent_loop_terminal [of items e n i] by simp
      then show ?thesis using go(1) go(2) [of n] by blast
    qed
    show ?thesis
      using 2 3 4 by blast
  qed
  show ?thesis
    using 0 1 rest by blast
qed

text \<open>The click turn holds the text \<^verbatim>\<open>Clicking\<close> and a computer call; the loop clicks and
  resolves to the text of the next turn.\<close>

theorem action_takes_precedence_witness:
  "well_formed click_turn \<and> computer_calls click_turn = [click_call] \<and>
   field ''text'' (hd (output_items click_turn)) = JStr ''Clicking'' \<and>
   agent_loop (quiet_env [done_turn]) 2 click_turn start_world =
     (Some (Inr (''Done'' @ [CHR 0x0A] @ ''Task complete'')),
      start_world\<lparr>calls := [MouseClick (JNum 50) (JNum 50) (JStr ''left''), settle, PageScreenshot True],
                  sent := [report click_turn click_call ''iVBORw0KGgo='']\<rparr>)"
proof -
  have two: "(2::nat) = Suc (Suc 0)" by simp
  have t: "field ''text'' (hd (output_items click_turn)) = JStr ''Clicking''"
    by (simp add: output_items_def click_turn_def)
  have s: "\<not> page_throws (quiet_env [done_turn])
             (calls (start_world\<lparr>calls := [MouseClick (JNum 50) (JNum 50) (JStr ''left'')]\<rparr>)) settle"
    and p: "\<not> page_throws (quiet_env [done_turn])
             (calls (start_world\<lparr>calls := [MouseClick (JNum 50) (JNum 50) (JStr ''left'')]\<rparr>) @ [settle])
             (PageScreenshot True)"
    by simp_all
  have m: "model_reply (quiet_env [done_turn])
             (sent start_world @ [report click_turn click_call
                (screenshot_data (quiet_env [done_turn])
                   (calls (start_world\<lparr>calls := [MouseClick (JNum 50) (JNum 50) (JStr ''left'')]\<rparr>) @ [settle]))]) =
           Reply done_turn"
    by (simp add: scripted_def)
  note typed = action_takes_precedence [OF click_turn_calls,
      of "quiet_env [done_turn]" start_world 0,
      THEN conjunct2, THEN conjunct2, THEN mp, OF click_turn_well_formed]
  note pass = typed [THEN conjunct2, THEN conjunct2, rule_format,
      OF conjI [OF click_handled conjI [OF s conjI [OF p m]]]]
  note final = pass [THEN conjunct2, THEN conjunct2, rule_format,
      of "JStr ''resp_2''" "[TextItem ''Done'', TextItem ''Task complete'']"]
  have "agent_loop (quiet_env [done_turn]) 2 click_turn start_world =
     (Some (Inr (''Done'' @ [CHR 0x0A] @ ''Task complete'')),
      start_world\<lparr>calls := [MouseClick (JNum 50) (JNum 50) (JStr ''left''), settle, PageScreenshot True],
                  sent := [report click_turn click_call ''iVBORw0KGgo='']\<rparr>)"
    unfolding two
    using final done_turn_typed
    by (simp add: resolved_text_def List.map_filter_simps)
  then show ?thesis
    using click_turn_well_formed click_turn_calls t by simp
qed

text \<open>Claim C7.  Every payload a run has sent, the first one and every screenshot
  payload, after any number of passes, declares exactly one tool, of width 1024 and height
  768; and when a payload has been sent, the page was given that viewport at launch.\<close>

theorem payloads_declare_viewport:
  "(\<forall>req \<in> set (sent (snd (runComputerUseAgent e fuel prompt))).
      \<exists>t. tools req = [t] \<and> display_width t = 1024 \<and> display_height t = 768) \<and>
   (sent (snd (runComputerUseAgent e fuel prompt)) \<noteq> [] \<longrightarrow>
      SetViewportSize 1024 768 \<in> set (calls (snd (runComputerUseAgent e fuel prompt))))"
proof -
  have dims: "display_width computer_tool = 1024 \<and> display_height computer_tool = 768"
    by (simp add: computer_tool_def)
  have start: "sent start_world = []" "calls start_world = []"
    by (simp_all add: start_world_def)
  show ?thesis
  proof (cases rule: run_cases [of e fuel prompt])
    case (not_opened err w0)
    then have "sent (snd (runComputerUseAgent e fuel prompt)) = []"
      using launch_failed [of e start_world err w0] start by simp
    then show ?thesis by simp
  next
    case (running w0 w2)
    have w0: "sent w0 = []" "SetViewportSize 1024 768 \<in> set (calls w0)"
      using launch_opened [OF running(1)] start by simp_all
    obtain new where "sent w2 = sent w0 @ new" "list_all (\<lambda>q. tools q = [computer_tool]) new"
      using session_body_sent [of e fuel prompt w0] running(2) by auto
    moreover obtain more where "calls w2 = calls w0 @ more"
      using session_body_calls [of e fuel prompt w0] running(2) by auto
    ultimately show ?thesis
      using running(3) w0 dims by (auto simp add: list_all_iff)
  next
    case (finished w0 w2 outcome)
    have w0: "sent w0 = []" "SetViewportSize 1024 768 \<in> set (calls w0)"
      using launch_opened [OF finished(1)] start by simp_all
    obtain new where "sent w2 = sent w0 @ new" "list_all (\<lambda>q. tools q = [computer_tool]) new"
      using session_body_sent [of e fuel prompt w0] finished(2) by auto
    moreover obtain more where "calls w2 = calls w0 @ more"
      using session_body_calls [of e fuel prompt w0] finished(2) by auto
    ultimately show ?thesis
      using finished(4) w0 dims by (auto simp add: list_all_iff)
  qed
qed

text \<open>The two payloads of the scenario.\<close>

theorem payloads_declare_viewport_witness:
  "map (\<lambda>req. map (\<lambda>t. (display_width t, display_height t)) (tools req))
     (sent (snd (runComputerUseAgent (quiet_env [click_turn, done_turn]) 2 ''task''))) =
     [[(1024, 768)], [(1024, 768)]] \<and>
   SetViewportSize 1024 768 \<in>
     set (calls (snd (runComputerUseAgent (quiet_env [click_turn, done_turn]) 2 ''task'')))"
  using payloads_declare_viewport [of "quiet_env [click_turn, done_turn]" 2 "''task''"]
  by (simp add: scenario_run first_request_def report_def screenshot_request_def computer_tool_def)

text \<open>Claim C8.  Dispatching an action of kind \<^verbatim>\<open>screenshot\<close> makes no call at all.
  In every pass that sends a payload, the calls of the pass are those of the dispatch,
  none of them a screenshot, then the settle delay, then one screenshot.\<close>

theorem one_screenshot_per_action:
  "(field ''type'' a = JStr ''screenshot'' \<longrightarrow> handleModelAction e a w = (Inr (), w)) \<and>
   (find_computer_call r = Inr c \<and> sent (snd (loop_body e r w)) \<noteq> sent w \<longrightarrow>
      (\<exists>cs. calls (snd (handleModelAction e (field ''action'' c) w)) = calls w @ cs \<and>
            (\<forall>full. PageScreenshot full \<notin> set cs) \<and>
            calls (snd (loop_body e r w)) = calls w @ cs @ [settle, PageScreenshot True]))"
proof -
  have "\<exists>cs. calls (snd (handleModelAction e (field ''action'' c) w)) = calls w @ cs \<and>
            (\<forall>full. PageScreenshot full \<notin> set cs) \<and>
            calls (snd (loop_body e r w)) = calls w @ cs @ [settle, PageScreenshot True]"
    if c: "find_computer_call r = Inr c" and grew: "sent (snd (loop_body e r w)) \<noteq> sent w"
  proof -
    obtain cs where cs: "calls (snd (handleModelAction e (field ''action'' c) w)) = calls w @ cs"
        "list_all dispatch_call cs"
      using handle_calls by blast
    have ns: "\<forall>full. PageScreenshot full \<notin> set cs"
      using cs(2) by (auto simp add: list_all_iff)
    have t: "truthy c"
    proof (rule ccontr)
      assume "\<not> truthy c"
      then have "snd (loop_body e r w) = w"
        using c by (simp add: loop_body_no_call)
      then show False using grew by simp
    qed
    have hs: "sent (snd (handleModelAction e (field ''action'' c) w)) = sent w"
      by simp
    from c t have "calls (snd (loop_body e r w)) = calls w @ cs @ [settle, PageScreenshot True]"
    proof (cases rule: loop_body_call_cases [where e = e and w = w])
      case (dispatch_throws err w1)
      then show ?thesis using grew hs by simp
    next
      case (settle_throws w1)
      then show ?thesis using grew hs by simp
    next
      case (screenshot_throws w1)
      then show ?thesis using grew hs by simp
    next
      case (reported w1 shot)
      then show ?thesis using cs(1) by simp
    qed
    then show ?thesis using cs(1) ns by blast
  qed
  then show ?thesis
    by (simp add: handle_screenshot)
qed

text \<open>A \<^verbatim>\<open>screenshot\<close> action, and the pass of the click turn.\<close>

theorem one_screenshot_per_action_witness:
  "field ''type'' screenshot_action = JStr ''screenshot'' \<and>
   handleModelAction (quiet_env []) screenshot_action start_world = (Inr (), start_world) \<and>
   find_computer_call click_turn = Inr click_call \<and>
   sent (snd (loop_body (quiet_env [done_turn]) click_turn start_world)) \<noteq> sent start_world \<and>
   calls (snd (loop_body (quiet_env [done_turn]) click_turn start_world)) =
     [MouseClick (JNum 50) (JNum 50) (JStr ''left''), settle, PageScreenshot True]"
proof -
  have s: "field ''type'' screenshot_action = JStr ''screenshot''"
    by (simp add: screenshot_action_def)
  have grew: "sent (snd (loop_body (quiet_env [done_turn]) click_turn start_world)) \<noteq> sent start_world"
    by (simp add: click_pass)
  show ?thesis
    using one_screenshot_per_action [of screenshot_action "quiet_env []" start_world click_turn click_call]
      one_screenshot_per_action [of screenshot_action "quiet_env [done_turn]" start_world click_turn click_call]
      s grew click_turn_call
    by (simp add: click_pass)
qed

text \<open>Claim C9.  A \<^verbatim>\<open>wait\<close> action makes one \<^verbatim>\<open>page.waitForTimeout\<close> call: with the
  value of its \<^verbatim>\<open>duration\<close> when there is one, with 1000 when \<^verbatim>\<open>duration\<close> is absent
  (\<^verbatim>\<open>undefined\<close> or \<^verbatim>\<open>null\<close>).\<close>

theorem wait_duration_default:
  "field ''type'' a = JStr ''wait'' \<Longrightarrow>
     (\<not> nullish (field ''duration'' a) \<longrightarrow>
        calls (snd (handleModelAction e a w)) = calls w @ [WaitForTimeout (field ''duration'' a)]) \<and>
     (nullish (field ''duration'' a) \<longrightarrow>
        calls (snd (handleModelAction e a w)) = calls w @ [WaitForTimeout (JNum 1000)])"
  by (simp add: handle_wait coalesce_def)

text \<open>A wait without duration, and one of 2500 milliseconds.\<close>

theorem wait_duration_default_witness:
  "field ''type'' wait_action = JStr ''wait'' \<and> nullish (field ''duration'' wait_action) \<and>
   calls (snd (handleModelAction (quiet_env []) wait_action start_world)) = [WaitForTimeout (JNum 1000)] \<and>
   field ''type'' long_wait_action = JStr ''wait'' \<and> \<not> nullish (field ''duration'' long_wait_action) \<and>
   calls (snd (handleModelAction (quiet_env []) long_wait_action start_world)) = [WaitForTimeout (JNum 2500)]"
proof -
  have a: "field ''type'' wait_action = JStr ''wait''" and b: "nullish (field ''duration'' wait_action)"
    by (simp_all add: wait_action_def)
  have c: "field ''type'' long_wait_action = JStr ''wait''"
    and d: "\<not> nullish (field ''duration'' long_wait_action)"
    and d': "field ''duration'' long_wait_action = JNum 2500"
    by (simp_all add: long_wait_action_def)
  show ?thesis
    using wait_duration_default [OF a, of "quiet_env []" start_world]
      wait_duration_default [OF c, of "quiet_env []" start_world] a b c d d'
    by simp
qed

text \<open>Claim C10.  Two actions whose kinds are among \<^verbatim>\<open>open_url\<close>, \<^verbatim>\<open>goto\<close> and
  \<^verbatim>\<open>navigate\<close>, with the same \<^verbatim>\<open>url\<close> and \<^verbatim>\<open>wait_until\<close>, are dispatched alike: same
  outcome, same Playwright calls, same payloads, and the same console lines up to the
  action quoted in the missing-URL warning.\<close>

theorem navigate_aliases:
  assumes "navigates (field ''type'' a)" and "navigates (field ''type'' a')"
    and "field ''url'' a = field ''url'' a'"
    and "field ''wait_until'' a = field ''wait_until'' a'"
  shows "fst (handleModelAction e a w) = fst (handleModelAction e a' w) \<and>
         calls (snd (handleModelAction e a w)) = calls (snd (handleModelAction e a' w)) \<and>
         sent (snd (handleModelAction e a w)) = sent (snd (handleModelAction e a' w)) \<and>
         map unquoted (console (snd (handleModelAction e a w))) =
           map unquoted (console (snd (handleModelAction e a' w)))"
proof -
  have "handleModelAction e a w = navigate_case e a w"
    using assms(1) by (simp add: navigates_def handle_navigate)
  moreover have "handleModelAction e a' w = navigate_case e a' w"
    using assms(2) by (simp add: navigates_def handle_navigate)
  ultimately show ?thesis
    using assms(3,4) by (simp add: navigate_case_eq)
qed

text \<open>\<^verbatim>\<open>goto\<close> and \<^verbatim>\<open>navigate\<close> to the same address.\<close>

theorem navigate_aliases_witness:
  "navigates (field ''type'' goto_action) \<and> navigates (field ''type'' navigate_action) \<and>
   field ''url'' goto_action = field ''url'' navigate_action \<and>
   field ''wait_until'' goto_action = field ''wait_until'' navigate_action \<and>
   calls (snd (handleModelAction (quiet_env []) goto_action start_world)) =
     [Goto (JStr ''https://example.com'') (JStr ''load'')] \<and>
   calls (snd (handleModelAction (quiet_env []) navigate_action start_world)) =
     [Goto (JStr ''https://example.com'') (JStr ''load'')]"
proof -
  have a: "navigates (field ''type'' goto_action)" and b: "navigates (field ''type'' navigate_action)"
    and c: "field ''url'' goto_action = field ''url'' navigate_action"
    and d: "field ''wait_until'' goto_action = field ''wait_until'' navigate_action"
    by (simp_all add: navigates_def goto_action_def navigate_action_def)
  have "calls (snd (handleModelAction (quiet_env []) navigate_action start_world)) =
     [Goto (JStr ''https://example.com'') (JStr ''load'')]"
    using b by (simp add: navigates_def handle_navigate navigate_case_eq)
       (simp add: navigate_action_def default_to_def)
  then show ?thesis
    using navigate_aliases [OF a b c d, of "quiet_env []" start_world] a b c d by simp
qed

end
